theory Spec2Isabelle
  imports
    Complex_Main
    "HOL-Library.Word"
    "HOL-Library.Char_ord"
    "HOL-Library.List_Lexorder"
    "HOL-Library.Product_Lexorder"
    "HOL-Library.Code_Target_Numeral"
begin

section \<open>pypicloud: the access backend base classes (pypicloud/access/base.py)\<close>

text \<open>
  The theory embeds \<^verbatim>\<open>IAccessBackend\<close> and \<^verbatim>\<open>IMutableAccessBackend\<close>.
  Python strings are \<^typ>\<open>string\<close> (in the signup tokens, where the encoding of the
  text matters, lists of code points), a \<^verbatim>\<open>dict\<close> is an association list with distinct
  keys kept in insertion order (the order \<^verbatim>\<open>six.iteritems\<close> walks on Python 3.7 and later),
  \<^verbatim>\<open>None\<close> is \<^term>\<open>None\<close>, and every exception the code can raise is a value of
  \<open>error\<close>, returned as \<^term>\<open>Inl\<close>. \<^verbatim>\<open>UnicodeEncodeError\<close> is a subclass of
  \<^verbatim>\<open>ValueError\<close> in Python and a value of its own here.
\<close>

subsection \<open>Python values\<close>

datatype error = RuntimeError | IndexError | ValueError | TypeError | UnicodeEncodeError

type_synonym ('k, 'v) dict = "('k \<times> 'v) list"

text \<open>\<^verbatim>\<open>d[k] = v\<close>: an existing key keeps its position, a new key goes last.\<close>

fun dict_set :: "'k \<Rightarrow> 'v \<Rightarrow> ('k, 'v) dict \<Rightarrow> ('k, 'v) dict" where
  "dict_set k v [] = [(k, v)]"
| "dict_set k v ((k', v') # d) =
     (if k' = k then (k, v) # d else (k', v') # dict_set k v d)"

text \<open>\<^verbatim>\<open>d.get(k, [])\<close>.\<close>

definition dict_get :: "('k, 'v list) dict \<Rightarrow> 'k \<Rightarrow> 'v list" where
  "dict_get d k = (case map_of d k of None \<Rightarrow> [] | Some v \<Rightarrow> v)"

text \<open>
  The constants of \<^verbatim>\<open>pyramid.security\<close> that the module imports, with the values
  that library gives them.
\<close>

definition Everyone :: string where
  "Everyone = ''system.Everyone''"

definition Authenticated :: string where
  "Authenticated = ''system.Authenticated''"

definition Allow :: string where
  "Allow = ''Allow''"

definition ONE_WEEK :: int where
  "ONE_WEEK = 60 * 60 * 24 * 7"

subsection \<open>Python text\<close>

text \<open>
  The signup tokens read a number out of text and encode text as UTF-8, and both look at
  characters beyond ASCII. For them a Python \<^verbatim>\<open>str\<close> is the list of its code points:
  numbers below \<open>0x110000\<close>, the surrogates \<open>0xD800\<close> to \<open>0xDFFF\<close> among them, which a
  \<^verbatim>\<open>str\<close> may hold one by one (a JSON body can deliver one). \<open>str_of\<close> reads a literal.
\<close>

type_synonym str = "nat list"

definition str_of :: "string \<Rightarrow> str" where
  "str_of s = map of_char s"

subsection \<open>Module functions\<close>

definition group_to_principal :: "string \<Rightarrow> string" where
  "group_to_principal grp =
     (if grp = Everyone \<or> grp = Authenticated \<or> take 6 grp = ''group:'' then grp
      else if grp = ''everyone'' then Everyone
      else if grp = ''authenticated'' then Authenticated
      else ''group:'' @ grp)"

definition groups_to_principals :: "string list \<Rightarrow> string list" where
  "groups_to_principals grps = map group_to_principal grps"

subsection \<open>The backend object\<close>

text \<open>
  What \<^verbatim>\<open>user_data(username)\<close> returns for an approved user.
\<close>

record user_info =
  info_username :: string
  info_admin :: bool
  info_groups :: "string list"

text \<open>
  One record holds what \<^verbatim>\<open>self\<close> holds: the attributes set by \<^verbatim>\<open>__init__\<close>, the
  request's identity (\<^verbatim>\<open>request.userid\<close> and pyramid's \<^verbatim>\<open>effective_principals(request)\<close>),
  the two library objects (the passlib context's \<^verbatim>\<open>verify\<close>, which may raise, and the raw
  HMAC-SHA256 digest), and the methods the base classes leave to a concrete backend
  (\<^verbatim>\<open>raise NotImplementedError\<close> in the base). The backend's storage is a value of type
  \<open>'s\<close>: a query reads it, a mutation returns the new one.
\<close>

record 's backend =
  mutable :: bool
  default_read :: "string list"
  default_write :: "string list"
  token_expiration :: int
  signing_key :: "str option"
  request_userid :: "string option"
  effective_principals :: "string list"
  pwd_verify :: "string \<Rightarrow> string \<Rightarrow> error + bool"
  hmac_sha256 :: "8 word list \<Rightarrow> 8 word list \<Rightarrow> 8 word list"
  user_permissions :: "'s \<Rightarrow> string \<Rightarrow> (string, string list) dict"
  group_permissions :: "'s \<Rightarrow> string \<Rightarrow> (string, string list) dict"
  is_admin :: "'s \<Rightarrow> string \<Rightarrow> bool"
  groups :: "'s \<Rightarrow> string \<Rightarrow> string list"
  get_password_hash :: "'s \<Rightarrow> string \<Rightarrow> string option"
  user_data :: "'s \<Rightarrow> string \<Rightarrow> user_info option"
  pending_users :: "'s \<Rightarrow> string list"
  group_members :: "'s \<Rightarrow> string \<Rightarrow> string list"
  register :: "string \<Rightarrow> string \<Rightarrow> 's \<Rightarrow> 's"
  approve_user :: "string \<Rightarrow> 's \<Rightarrow> 's"
  set_user_admin :: "string \<Rightarrow> bool \<Rightarrow> 's \<Rightarrow> 's"
  create_group :: "string \<Rightarrow> 's \<Rightarrow> 's"
  edit_user_group :: "string \<Rightarrow> string \<Rightarrow> bool \<Rightarrow> 's \<Rightarrow> 's"
  edit_group_permission :: "string \<Rightarrow> string \<Rightarrow> string \<Rightarrow> bool \<Rightarrow> 's \<Rightarrow> 's"
  edit_user_permission :: "string \<Rightarrow> string \<Rightarrow> string \<Rightarrow> bool \<Rightarrow> 's \<Rightarrow> 's"
  set_allow_register :: "bool \<Rightarrow> 's \<Rightarrow> 's"

subsection \<open>Permission resolution\<close>

text \<open>
  \<^verbatim>\<open>allowed_permissions\<close>: the explicit user grants, then the explicit group grants; the
  defaults only when the dictionary built so far is empty.
\<close>

definition add_default_write :: "string \<Rightarrow> (string, string list) dict \<Rightarrow> (string, string list) dict" where
  "add_default_write prin all_perms =
     (case map_of all_perms prin of
        Some perms \<Rightarrow> dict_set prin (perms @ [''write'']) all_perms
      | None \<Rightarrow> dict_set prin [''write''] all_perms)"

definition allowed_permissions :: "'s backend \<Rightarrow> 's \<Rightarrow> string \<Rightarrow> (string, string list) dict" where
  "allowed_permissions self s package =
     (let all_perms = fold (\<lambda>(user, perms). dict_set (''user:'' @ user) perms)
                        (user_permissions self s package) [];
          all_perms = fold (\<lambda>(grp, perms). dict_set (group_to_principal grp) perms)
                        (group_permissions self s package) all_perms
      in if all_perms = [] then
           (let all_perms = fold (\<lambda>prin. dict_set prin [''read''])
                              (groups_to_principals (default_read self)) all_perms
            in fold add_default_write (groups_to_principals (default_write self)) all_perms)
         else all_perms)"

text \<open>\<^verbatim>\<open>get_acl\<close>: the two nested loops, each \<^verbatim>\<open>acl.append\<close> adding at the end.\<close>

definition get_acl :: "'s backend \<Rightarrow> 's \<Rightarrow> string \<Rightarrow> (string \<times> string \<times> string) list" where
  "get_acl self s package =
     fold (\<lambda>(prin, perms) acl.
             fold (\<lambda>perm acl. acl @ [(Allow, prin, perm)]) perms acl)
          (allowed_permissions self s package) []"

text \<open>
  \<^verbatim>\<open>has_permission\<close>: the loop over the effective principals returns at the first
  principal holding the permission.
\<close>

fun any_principal_has :: "(string, string list) dict \<Rightarrow> string \<Rightarrow> string list \<Rightarrow> bool" where
  "any_principal_has perms perm [] = False"
| "any_principal_has perms perm (prin # rest) =
     (if perm \<in> set (dict_get perms prin) then True
      else any_principal_has perms perm rest)"

definition has_permission :: "'s backend \<Rightarrow> 's \<Rightarrow> string \<Rightarrow> string \<Rightarrow> bool" where
  "has_permission self s package perm =
     (case request_userid self of
        Some current_userid \<Rightarrow>
          if is_admin self s current_userid then True
          else any_principal_has (allowed_permissions self s package) perm
                 (effective_principals self)
      | None \<Rightarrow>
          any_principal_has (allowed_permissions self s package) perm
            (effective_principals self))"

subsection \<open>Group membership\<close>


subsection \<open>Credentials\<close>

text \<open>
  \<^verbatim>\<open>verify_user\<close>. \<^verbatim>\<open>stored_pw and verify(password, stored_pw)\<close> evaluates the context's
  \<^verbatim>\<open>verify\<close> only for a hash that is neither \<^verbatim>\<open>None\<close> nor empty.
\<close>

definition verify_user :: "'s backend \<Rightarrow> 's \<Rightarrow> string \<Rightarrow> string \<Rightarrow> error + bool" where
  "verify_user self s username password =
     (let stored_pw = get_password_hash self s username
      in if mutable self \<and> user_data self s username = None then Inr False
         else case stored_pw of
                None \<Rightarrow> Inr False
              | Some h \<Rightarrow> if h = [] then Inr False else pwd_verify self password h)"

subsection \<open>Python string operations used by the signup tokens\<close>

text \<open>
  \<^verbatim>\<open>s.encode("utf8")\<close>: one to four bytes for each code point, and
  \<^verbatim>\<open>UnicodeEncodeError\<close> when the text holds a surrogate.
\<close>

definition is_surrogate :: "nat \<Rightarrow> bool" where
  "is_surrogate c \<longleftrightarrow> 0xD800 \<le> c \<and> c \<le> 0xDFFF"

definition utf8_bytes :: "nat \<Rightarrow> 8 word list" where
  "utf8_bytes c =
     (if c < 0x80 then [of_nat c]
      else if c < 0x800 then [of_nat (0xC0 + c div 64), of_nat (0x80 + c mod 64)]
      else if c < 0x10000 then
        [of_nat (0xE0 + c div 4096), of_nat (0x80 + c div 64 mod 64), of_nat (0x80 + c mod 64)]
      else
        [of_nat (0xF0 + c div 262144 mod 8), of_nat (0x80 + c div 4096 mod 64),
         of_nat (0x80 + c div 64 mod 64), of_nat (0x80 + c mod 64)])"

definition encode_utf8 :: "str \<Rightarrow> error + 8 word list" where
  "encode_utf8 s =
     (if list_ex is_surrogate s then Inl UnicodeEncodeError
      else Inr (concat (map utf8_bytes s)))"

text \<open>\<^verbatim>\<open>s.split(":")\<close>: the pieces between the separators, never an empty list.\<close>

fun split :: "'a \<Rightarrow> 'a list \<Rightarrow> 'a list list" where
  "split sep [] = [[]]"
| "split sep (c # cs) =
     (if c = sep then [] # split sep cs
      else case split sep cs of
             [] \<Rightarrow> [[c]]
           | piece # pieces \<Rightarrow> (c # piece) # pieces)"

text \<open>
  \<^verbatim>\<open>"%d" % n\<close>: decimal digits, a minus sign for a negative number. A float is cut
  towards zero first, as \<^verbatim>\<open>%d\<close> does. The interpreter refuses to print an integer of more
  than \<open>max_str_digits\<close> digits (\<^verbatim>\<open>sys.get_int_max_str_digits()\<close>, 4300 unless the
  interpreter is started otherwise) and raises \<^verbatim>\<open>ValueError\<close>.
\<close>

definition max_str_digits :: nat where
  "max_str_digits = 4300"

definition digit_char :: "nat \<Rightarrow> nat" where
  "digit_char n = 48 + n"

fun show_nat :: "nat \<Rightarrow> str" where
  "show_nat n = (if n < 10 then [digit_char n] else show_nat (n div 10) @ [digit_char (n mod 10)])"

declare show_nat.simps [simp del]

definition show_int :: "int \<Rightarrow> str" where
  "show_int i = (if i < 0 then 45 # show_nat (nat (- i)) else show_nat (nat i))"

definition format_d :: "int \<Rightarrow> error + str" where
  "format_d i =
     (if max_str_digits < length (show_nat (nat \<bar>i\<bar>)) then Inl ValueError
      else Inr (show_int i))"

definition int_of_float :: "real \<Rightarrow> int" where
  "int_of_float x = (if 0 \<le> x then \<lfloor>x\<rfloor> else \<lceil>x\<rceil>)"

text \<open>
  \<^verbatim>\<open>int(s)\<close> on text, \<^term>\<open>None\<close> standing for its \<^verbatim>\<open>ValueError\<close>. Text that is not all
  ASCII is rewritten first: a character from 127 on becomes a blank when it is Unicode
  whitespace, the ASCII digit of its value when it is a Unicode decimal digit, and a
  question mark otherwise; a character below 127 stays (the interpreter drops what
  follows the first question mark, and refuses the text with or without it). Then
  surrounding ASCII whitespace (tab to carriage return, and the blank) is dropped, one
  sign may lead, and the rest is decimal digits, where a single underscore may stand
  between two digits; more than
  \<open>max_str_digits\<close> digits are refused. The two tables are those of the Unicode database
  of Python 3.11: the whitespace from 127 on, and the zero of each run of ten decimal
  digits.
\<close>

definition unicode_spaces :: "nat list" where
  "unicode_spaces =
     [0x85, 0xA0, 0x1680, 0x2000, 0x2001, 0x2002, 0x2003, 0x2004, 0x2005, 0x2006, 0x2007,
      0x2008, 0x2009, 0x200A, 0x2028, 0x2029, 0x202F, 0x205F, 0x3000]"

definition unicode_zeros :: "nat list" where
  "unicode_zeros =
     [0x660, 0x6F0, 0x7C0, 0x966, 0x9E6, 0xA66, 0xAE6, 0xB66, 0xBE6, 0xC66, 0xCE6, 0xD66,
      0xDE6, 0xE50, 0xED0, 0xF20, 0x1040, 0x1090, 0x17E0, 0x1810, 0x1946, 0x19D0, 0x1A80,
      0x1A90, 0x1B50, 0x1BB0, 0x1C40, 0x1C50, 0xA620, 0xA8D0, 0xA900, 0xA9D0, 0xA9F0,
      0xAA50, 0xABF0, 0xFF10, 0x104A0, 0x10D30, 0x11066, 0x110F0, 0x11136, 0x111D0,
      0x112F0, 0x11450, 0x114D0, 0x11650, 0x116C0, 0x11730, 0x118E0, 0x11950, 0x11C50,
      0x11D50, 0x11DA0, 0x16A60, 0x16AC0, 0x16B50, 0x1D7CE, 0x1D7D8, 0x1D7E2, 0x1D7EC,
      0x1D7F6, 0x1E140, 0x1E2F0, 0x1E950, 0x1FBF0]"

definition to_ascii_char :: "nat \<Rightarrow> nat" where
  "to_ascii_char c =
     (if c < 127 then c
      else if c \<in> set unicode_spaces then 32
      else case find (\<lambda>z. z \<le> c \<and> c < z + 10) unicode_zeros of
             Some z \<Rightarrow> 48 + (c - z)
           | None \<Rightarrow> 63)"

definition to_ascii :: "str \<Rightarrow> str" where
  "to_ascii s = (if list_all (\<lambda>c. c < 128) s then s else map to_ascii_char s)"

definition is_space :: "nat \<Rightarrow> bool" where
  "is_space c \<longleftrightarrow> (9 \<le> c \<and> c \<le> 13) \<or> c = 32"

definition is_digit :: "nat \<Rightarrow> bool" where
  "is_digit c \<longleftrightarrow> 48 \<le> c \<and> c \<le> 57"

definition digit_val :: "nat \<Rightarrow> nat" where
  "digit_val c = c - 48"

definition strip :: "str \<Rightarrow> str" where
  "strip s = rev (dropWhile is_space (rev (dropWhile is_space s)))"

fun parse_digits :: "nat \<Rightarrow> str \<Rightarrow> nat option" where
  "parse_digits acc [] = None"
| "parse_digits acc (c # cs) =
     (if is_digit c then
        (let acc' = 10 * acc + digit_val c
         in case cs of
              [] \<Rightarrow> Some acc'
            | d # ds \<Rightarrow> if d = 95 then parse_digits acc' ds else parse_digits acc' cs)
      else None)"

definition parse_number :: "str \<Rightarrow> nat option" where
  "parse_number ds =
     (if max_str_digits < length (filter is_digit ds) then None else parse_digits 0 ds)"

definition py_int :: "str \<Rightarrow> int option" where
  "py_int s =
     (case strip (to_ascii s) of
        [] \<Rightarrow> None
      | c # cs \<Rightarrow>
          if c = 45 then map_option (\<lambda>n. - int n) (parse_number cs)
          else if c = 43 then map_option int (parse_number cs)
          else map_option int (parse_number (c # cs)))"

text \<open>\<^verbatim>\<open>hexdigest()\<close>: two lowercase hexadecimal digits for each byte of the digest.\<close>

definition hex_char :: "nat \<Rightarrow> nat" where
  "hex_char n = str_of ''0123456789abcdef'' ! n"

definition hexdigest :: "8 word list \<Rightarrow> str" where
  "hexdigest bytes = concat (map (\<lambda>b. [hex_char (unat b div 16), hex_char (unat b mod 16)]) bytes)"

subsection \<open>Signup tokens\<close>

text \<open>
  \<^verbatim>\<open>time.time()\<close> is a parameter \<open>now\<close>, the seconds since the epoch as a real number.
  \<^verbatim>\<open>_hmac\<close> formats the message, then encodes the key and the message, each of which
  may raise, and hands the bytes to the digest.
\<close>

definition hmac :: "'s backend \<Rightarrow> str \<Rightarrow> real \<Rightarrow> error + (str \<times> str)" where
  "hmac self username timestamp =
     (case signing_key self of
        None \<Rightarrow> Inl RuntimeError
      | Some key \<Rightarrow>
          (case format_d (int_of_float timestamp) of
             Inl e \<Rightarrow> Inl e
           | Inr digits \<Rightarrow>
               (let msg = username @ str_of '':'' @ digits
                in case encode_utf8 key of
                     Inl e \<Rightarrow> Inl e
                   | Inr key_bytes \<Rightarrow>
                       (case encode_utf8 msg of
                          Inl e \<Rightarrow> Inl e
                        | Inr msg_bytes \<Rightarrow>
                            Inr (msg, hexdigest (hmac_sha256 self key_bytes msg_bytes))))))"

definition get_signup_token :: "'s backend \<Rightarrow> real \<Rightarrow> str \<Rightarrow> error + str" where
  "get_signup_token self now username =
     (case hmac self username now of
        Inl e \<Rightarrow> Inl e
      | Inr (msg, signature) \<Rightarrow> Inr (msg @ str_of '':'' @ signature))"

text \<open>
  \<^verbatim>\<open>validate_signup_token\<close>; 58 is the code point of the colon. \<^verbatim>\<open>pieces.pop()\<close> takes
  the last piece; \<^verbatim>\<open>pieces[0]\<close> and
  \<^verbatim>\<open>pieces[1]\<close> raise \<^verbatim>\<open>IndexError\<close> on a list too short, and \<^verbatim>\<open>int\<close> raises
  \<^verbatim>\<open>ValueError\<close>. The module \<^verbatim>\<open>hmac\<close> has \<^verbatim>\<open>compare_digest\<close> and both values are text,
  so the signature is encoded, which may raise, then the expected digest, and
  \<^verbatim>\<open>compare_digest\<close> is equality of the two byte strings.
\<close>

definition validate_signup_token :: "'s backend \<Rightarrow> real \<Rightarrow> str \<Rightarrow> error + str option" where
  "validate_signup_token self now token =
     (if signing_key self = None then Inr None
      else
        (let pieces = split 58 token;
             signature = last pieces;
             pieces = butlast pieces
         in case pieces of
              [] \<Rightarrow> Inl IndexError
            | username # rest \<Rightarrow>
                (case rest of
                   [] \<Rightarrow> Inl IndexError
                 | piece1 # _ \<Rightarrow>
                     (case py_int piece1 of
                        None \<Rightarrow> Inl ValueError
                      | Some issued \<Rightarrow>
                          if real_of_int (issued + token_expiration self) < now then Inr None
                          else
                            (case hmac self username (real_of_int issued) of
                               Inl e \<Rightarrow> Inl e
                             | Inr (_, expected) \<Rightarrow>
                                 (case encode_utf8 signature of
                                    Inl e \<Rightarrow> Inl e
                                  | Inr signature_bytes \<Rightarrow>
                                      (case encode_utf8 expected of
                                         Inl e \<Rightarrow> Inl e
                                       | Inr expected_bytes \<Rightarrow>
                                           if signature_bytes \<noteq> expected_bytes then Inr None
                                           else Inr (Some username))))))))"

subsection \<open>Loading a dump\<close>

text \<open>
  The dictionary \<^verbatim>\<open>load\<close> receives (the format \<^verbatim>\<open>dump\<close> writes). An entry of
  \<^verbatim>\<open>data["users"]\<close> is (username, password hash, admin), where a missing \<^verbatim>\<open>admin\<close> key
  reads as \<^verbatim>\<open>False\<close>; an entry of \<^verbatim>\<open>data["pending_users"]\<close> is (username, password
  hash), and a missing list reads as empty. \<open>snap_package_groups\<close> is
  \<^verbatim>\<open>data["packages"]["groups"]\<close> and \<open>snap_package_users\<close> is \<^verbatim>\<open>data["packages"]["users"]\<close>.
  Every other key is read with \<^verbatim>\<open>data[...]\<close>, which raises \<^verbatim>\<open>KeyError\<close> on a
  dictionary that lacks it: a dump has them all, and so has every value of the record.
\<close>

record snapshot =
  snap_allow_register :: bool
  snap_groups :: "(string, string list) dict"
  snap_users :: "(string \<times> string \<times> bool) list"
  snap_pending_users :: "(string \<times> string) list"
  snap_package_groups :: "(string, (string, string list) dict) dict"
  snap_package_users :: "(string, (string, string list) dict) dict"

text \<open>
  The helper \<^verbatim>\<open>user_exists\<close> of \<^verbatim>\<open>load\<close>; \<open>pending\<close> is the set of pending users
  read once, before the first loop.
\<close>

definition user_exists :: "'s backend \<Rightarrow> string set \<Rightarrow> 's \<Rightarrow> string \<Rightarrow> bool" where
  "user_exists self pending s username \<longleftrightarrow>
     username \<in> pending \<or> user_data self s username \<noteq> None"

definition load_user :: "'s backend \<Rightarrow> string set \<Rightarrow> string \<times> string \<times> bool \<Rightarrow> 's \<Rightarrow> 's" where
  "load_user self pending user s =
     (case user of (username, password, admin) \<Rightarrow>
        (let s1 = (if \<not> user_exists self pending s username
                   then approve_user self username (register self username password s)
                   else s)
         in set_user_admin self username admin s1))"

text \<open>
  \<^verbatim>\<open>set(members) - set(current_members)\<close> is walked in the order of a Python set, which
  the language leaves open; here the declared order, duplicates dropped.
\<close>

definition load_group :: "'s backend \<Rightarrow> string \<times> string list \<Rightarrow> 's \<Rightarrow> 's" where
  "load_group self entry s =
     (case entry of (grp, members) \<Rightarrow>
        (let s1 = (if group_members self s grp = [] then create_group self grp s else s);
             current_members = group_members self s1 grp;
             add_members = filter (\<lambda>member. member \<notin> set current_members) (remdups members)
         in fold (\<lambda>member. edit_user_group self member grp True) add_members s1))"

definition load_pending_user :: "'s backend \<Rightarrow> string set \<Rightarrow> string \<times> string \<Rightarrow> 's \<Rightarrow> 's" where
  "load_pending_user self pending user s =
     (case user of (username, password) \<Rightarrow>
        (if \<not> user_exists self pending s username then register self username password s
         else s))"

definition load_group_permissions ::
  "'s backend \<Rightarrow> string \<times> (string, string list) dict \<Rightarrow> 's \<Rightarrow> 's" where
  "load_group_permissions self entry s =
     (case entry of (package, grps) \<Rightarrow>
        fold (\<lambda>(grp, permissions).
                fold (\<lambda>perm. edit_group_permission self package grp perm True) permissions)
             grps s)"

definition load_user_permissions ::
  "'s backend \<Rightarrow> string \<times> (string, string list) dict \<Rightarrow> 's \<Rightarrow> 's" where
  "load_user_permissions self entry s =
     (case entry of (package, users) \<Rightarrow>
        fold (\<lambda>(user, permissions).
                fold (\<lambda>perm. edit_user_permission self package user perm True) permissions)
             users s)"

text \<open>\<^verbatim>\<open>IMutableAccessBackend.load\<close>: the five loops in the order of the source.\<close>

definition load :: "'s backend \<Rightarrow> snapshot \<Rightarrow> 's \<Rightarrow> 's" where
  "load self data s =
     (let pending = set (pending_users self s);
          s1 = fold (load_user self pending) (snap_users data) s;
          s2 = fold (load_group self) (snap_groups data) s1;
          s3 = fold (load_pending_user self pending) (snap_pending_users data) s2;
          s4 = fold (load_group_permissions self) (snap_package_groups data) s3;
          s5 = fold (load_user_permissions self) (snap_package_users data) s4
      in set_allow_register self (snap_allow_register data) s5)"

subsection \<open>A store for the mutable backend\<close>

text \<open>
  Modelled from the spec: the storage of a mutable backend. The concrete backends (SQL,
  LDAP, configuration file, cloud tables) are not part of
  \<^verbatim>\<open>base.py\<close>, which only declares their methods. A user has a
  unique name, a password hash, an admin flag and a status, pending or approved; a group
  has a unique name and its members; a package holds two grant maps, from users and from
  groups to permissions.
\<close>

record user_rec =
  user_password :: string
  user_admin :: bool
  user_pending :: bool

record store =
  st_users :: "(string, user_rec) dict"
  st_groups :: "(string, string list) dict"
  st_user_grants :: "string \<Rightarrow> (string, string list) dict"
  st_group_grants :: "string \<Rightarrow> (string, string list) dict"
  st_allow_register :: bool

text \<open>
  Modelled from the spec: the query \<^verbatim>\<open>pending_users\<close> of the
  AccessStore contract, unimplemented in \<^verbatim>\<open>base.py\<close>: the users
  whose status is pending.
\<close>

definition store_pending_users :: "store \<Rightarrow> string list" where
  "store_pending_users st = map fst (filter (\<lambda>(name, r). user_pending r) (st_users st))"

text \<open>
  Modelled from the spec: the query \<^verbatim>\<open>groups\<close>, unimplemented in
  \<^verbatim>\<open>base.py\<close>: the groups that hold the user as a member.
\<close>

definition store_groups :: "store \<Rightarrow> string \<Rightarrow> string list" where
  "store_groups st username = map fst (filter (\<lambda>(grp, members). username \<in> set members) (st_groups st))"

text \<open>
  Modelled from the spec: the query \<^verbatim>\<open>group_members\<close>,
  unimplemented in \<^verbatim>\<open>base.py\<close>: the membership of the group, empty
  for a group the store lacks.
\<close>

definition store_group_members :: "store \<Rightarrow> string \<Rightarrow> string list" where
  "store_group_members st grp = (case map_of (st_groups st) grp of None \<Rightarrow> [] | Some members \<Rightarrow> members)"

text \<open>
  Modelled from the spec: the query \<^verbatim>\<open>is_admin\<close>, unimplemented in
  \<^verbatim>\<open>base.py\<close>: the admin flag of the user, false for a user the
  store lacks.
\<close>

definition store_is_admin :: "store \<Rightarrow> string \<Rightarrow> bool" where
  "store_is_admin st username = (case map_of (st_users st) username of None \<Rightarrow> False | Some r \<Rightarrow> user_admin r)"

text \<open>
  Modelled from the spec: the query \<^verbatim>\<open>_get_password_hash\<close>,
  unimplemented in \<^verbatim>\<open>base.py\<close>: the stored hash, of a pending user
  as well.
\<close>

definition store_get_password_hash :: "store \<Rightarrow> string \<Rightarrow> string option" where
  "store_get_password_hash st username = map_option user_password (map_of (st_users st) username)"

text \<open>
  Modelled from the spec: the query \<^verbatim>\<open>user_data\<close>, unimplemented in
  \<^verbatim>\<open>base.py\<close>: a pending user is excluded from every user query
  although its record exists in the storage.
\<close>

definition store_user_data :: "store \<Rightarrow> string \<Rightarrow> user_info option" where
  "store_user_data st username =
     (case map_of (st_users st) username of
        None \<Rightarrow> None
      | Some r \<Rightarrow>
          if user_pending r then None
          else Some \<lparr>info_username = username, info_admin = user_admin r,
                      info_groups = store_groups st username\<rparr>)"

text \<open>
  Modelled from the spec: the mutation \<^verbatim>\<open>_register\<close>, unimplemented
  in \<^verbatim>\<open>base.py\<close>: registration stores a pending user with the hash
  it is given; usernames are unique, so registering a name the store has changes nothing.
\<close>

definition store_register :: "string \<Rightarrow> string \<Rightarrow> store \<Rightarrow> store" where
  "store_register username password st =
     (if username \<in> fst ` set (st_users st) then st
      else st\<lparr>st_users := st_users st @
                  [(username, \<lparr>user_password = password, user_admin = False, user_pending = True\<rparr>)]\<rparr>)"

text \<open>
  Modelled from the spec: the mutation \<^verbatim>\<open>approve_user\<close>,
  unimplemented in \<^verbatim>\<open>base.py\<close>: from pending to approved, one-way
  and idempotent.
\<close>

definition store_approve_user :: "string \<Rightarrow> store \<Rightarrow> store" where
  "store_approve_user username st =
     st\<lparr>st_users := map (\<lambda>(name, r). if name = username then (name, r\<lparr>user_pending := False\<rparr>)
                                       else (name, r)) (st_users st)\<rparr>"

text \<open>
  Modelled from the spec: the mutation \<^verbatim>\<open>set_user_admin\<close>,
  unimplemented in \<^verbatim>\<open>base.py\<close>: the admin flag is overwritten.
\<close>

definition store_set_user_admin :: "string \<Rightarrow> bool \<Rightarrow> store \<Rightarrow> store" where
  "store_set_user_admin username admin st =
     st\<lparr>st_users := map (\<lambda>(name, r). if name = username then (name, r\<lparr>user_admin := admin\<rparr>)
                                       else (name, r)) (st_users st)\<rparr>"

text \<open>
  Modelled from the spec: the mutation \<^verbatim>\<open>create_group\<close>,
  unimplemented in \<^verbatim>\<open>base.py\<close>: a group is created with no member;
  group names are unique, so creating a group the store has changes nothing.
\<close>

definition store_create_group :: "string \<Rightarrow> store \<Rightarrow> store" where
  "store_create_group grp st =
     (if grp \<in> fst ` set (st_groups st) then st
      else st\<lparr>st_groups := st_groups st @ [(grp, [])]\<rparr>)"

text \<open>
  Modelled from the spec: a membership edit is idempotent, adding a member who is present
  and removing one who is absent change nothing.
\<close>

definition edit_member :: "string \<Rightarrow> bool \<Rightarrow> string list \<Rightarrow> string list" where
  "edit_member username add members =
     (if add then (if username \<in> set members then members else members @ [username])
      else removeAll username members)"

text \<open>
  Modelled from the spec: the mutation \<^verbatim>\<open>edit_user_group\<close>,
  unimplemented in \<^verbatim>\<open>base.py\<close>: the membership of a user the store
  lacks silently fails to attach.
\<close>

definition store_edit_user_group :: "string \<Rightarrow> string \<Rightarrow> bool \<Rightarrow> store \<Rightarrow> store" where
  "store_edit_user_group username grp add st =
     (if username \<notin> fst ` set (st_users st) then st
      else st\<lparr>st_groups := map (\<lambda>(name, members).
                                   if name = grp then (name, edit_member username add members)
                                   else (name, members)) (st_groups st)\<rparr>)"

text \<open>
  Modelled from the spec: a grant edit is idempotent, adding a permission already present
  and revoking an absent one change nothing; a principal left without a permission has no
  entry.
\<close>

definition edit_grant :: "string \<Rightarrow> string \<Rightarrow> bool \<Rightarrow> (string, string list) dict \<Rightarrow> (string, string list) dict" where
  "edit_grant who perm add d =
     (case map_of d who of
        None \<Rightarrow> if add then dict_set who [perm] d else d
      | Some perms \<Rightarrow>
          if add then (if perm \<in> set perms then d else dict_set who (perms @ [perm]) d)
          else (let perms' = removeAll perm perms
                in if perms' = [] then filter (\<lambda>(k, v). k \<noteq> who) d
                   else dict_set who perms' d))"

text \<open>
  Modelled from the spec: the mutation \<^verbatim>\<open>edit_group_permission\<close>,
  unimplemented in \<^verbatim>\<open>base.py\<close>, on the group grants of the package.
\<close>

definition store_edit_group_permission :: "string \<Rightarrow> string \<Rightarrow> string \<Rightarrow> bool \<Rightarrow> store \<Rightarrow> store" where
  "store_edit_group_permission package grp perm add st =
     st\<lparr>st_group_grants := (st_group_grants st)(package := edit_grant grp perm add (st_group_grants st package))\<rparr>"

text \<open>
  Modelled from the spec: the mutation \<^verbatim>\<open>edit_user_permission\<close>,
  unimplemented in \<^verbatim>\<open>base.py\<close>, on the user grants of the package.
\<close>

definition store_edit_user_permission :: "string \<Rightarrow> string \<Rightarrow> string \<Rightarrow> bool \<Rightarrow> store \<Rightarrow> store" where
  "store_edit_user_permission package username perm add st =
     st\<lparr>st_user_grants := (st_user_grants st)(package := edit_grant username perm add (st_user_grants st package))\<rparr>"

text \<open>
  Modelled from the spec: the mutation \<^verbatim>\<open>set_allow_register\<close>,
  unimplemented in \<^verbatim>\<open>base.py\<close>: the flag is overwritten.
\<close>

definition store_set_allow_register :: "bool \<Rightarrow> store \<Rightarrow> store" where
  "store_set_allow_register allow st = st\<lparr>st_allow_register := allow\<rparr>"

text \<open>
  The mutable backend over this store, with the settings \<^verbatim>\<open>configure\<close> gives when the
  application sets none, for an anonymous request. The password context and the digest are
  library objects and stay parameters.
\<close>

definition store_backend ::
  "(string \<Rightarrow> string \<Rightarrow> error + bool) \<Rightarrow> (8 word list \<Rightarrow> 8 word list \<Rightarrow> 8 word list) \<Rightarrow>
   store backend" where
  "store_backend verify digest =
     \<lparr>mutable = True,
      default_read = [''authenticated''],
      default_write = [],
      token_expiration = ONE_WEEK,
      signing_key = None,
      request_userid = None,
      effective_principals = [Everyone],
      pwd_verify = verify,
      hmac_sha256 = digest,
      user_permissions = st_user_grants,
      group_permissions = st_group_grants,
      is_admin = store_is_admin,
      groups = store_groups,
      get_password_hash = store_get_password_hash,
      user_data = store_user_data,
      pending_users = store_pending_users,
      group_members = store_group_members,
      register = store_register,
      approve_user = store_approve_user,
      set_user_admin = store_set_user_admin,
      create_group = store_create_group,
      edit_user_group = store_edit_user_group,
      edit_group_permission = store_edit_group_permission,
      edit_user_permission = store_edit_user_permission,
      set_allow_register = store_set_allow_register\<rparr>"

text \<open>
  Stand-ins for the two library objects in the worked examples: a context whose hash of a
  password is the password behind a dollar sign, and a one-byte digest.
\<close>

definition example_verify :: "string \<Rightarrow> string \<Rightarrow> error + bool" where
  "example_verify password h = Inr (h = CHR ''$'' # password)"

definition example_digest :: "8 word list \<Rightarrow> 8 word list \<Rightarrow> 8 word list" where
  "example_digest key msg = [of_nat (length key + length msg)]"

definition example_backend :: "store backend" where
  "example_backend = store_backend example_verify example_digest"

definition empty_store :: store where
  "empty_store = \<lparr>st_users = [], st_groups = [], st_user_grants = (\<lambda>package. []),
                  st_group_grants = (\<lambda>package. []), st_allow_register = False\<rparr>"

text \<open>
  A store with an approved administrator, an approved user, a user pending approval, the
  group \<^verbatim>\<open>qa\<close>, an empty group \<^verbatim>\<open>ops\<close>, and one package with an explicit grant.
\<close>

definition example_store :: store where
  "example_store =
     \<lparr>st_users =
        [(''alice'', \<lparr>user_password = ''$secret'', user_admin = True, user_pending = False\<rparr>),
         (''carol'', \<lparr>user_password = ''$tea'', user_admin = False, user_pending = False\<rparr>),
         (''eve'', \<lparr>user_password = ''$pw'', user_admin = False, user_pending = True\<rparr>)],
      st_groups = [(''qa'', [''carol'']), (''ops'', [])],
      st_user_grants = (\<lambda>package. if package = ''foo'' then [(''alice'', [''write'', ''read''])] else []),
      st_group_grants = (\<lambda>package. []),
      st_allow_register = False\<rparr>"

text \<open>
  \<open>store_le st st'\<close>: every group of \<open>st\<close> is a group of \<open>st'\<close> with at least the same
  members, and every permission granted in \<open>st\<close> is granted in \<open>st'\<close>.
\<close>

definition store_le :: "store \<Rightarrow> store \<Rightarrow> bool" where
  "store_le st st' \<longleftrightarrow>
     (\<forall>grp members. map_of (st_groups st) grp = Some members \<longrightarrow>
        (\<exists>members'. map_of (st_groups st') grp = Some members' \<and> set members \<subseteq> set members'))
     \<and> (\<forall>package who. set (dict_get (st_user_grants st package) who)
                          \<subseteq> set (dict_get (st_user_grants st' package) who))
     \<and> (\<forall>package who. set (dict_get (st_group_grants st package) who)
                          \<subseteq> set (dict_get (st_group_grants st' package) who))"

text \<open>
  Two dumps used in the examples: one declares the group \<^verbatim>\<open>dev\<close> with the member bob
  and bob as a user pending approval; the other declares the user bob, the groups
  \<^verbatim>\<open>dev\<close> (member bob) and \<^verbatim>\<open>ops\<close> (no member), and grants on the package \<^verbatim>\<open>foo\<close>.
\<close>

definition pending_member_dump :: snapshot where
  "pending_member_dump =
     \<lparr>snap_allow_register = False,
      snap_groups = [(''dev'', [''bob''])],
      snap_users = [],
      snap_pending_users = [(''bob'', ''$hash'')],
      snap_package_groups = [],
      snap_package_users = []\<rparr>"

definition example_dump :: snapshot where
  "example_dump =
     \<lparr>snap_allow_register = True,
      snap_groups = [(''dev'', [''bob'']), (''ops'', [])],
      snap_users = [(''bob'', ''$hash'', False)],
      snap_pending_users = [],
      snap_package_groups = [(''foo'', [(''dev'', [''read''])])],
      snap_package_users = [(''foo'', [(''bob'', [''read''])])]\<rparr>"

subsection \<open>Recording the primitive calls of a backend\<close>

datatype call =
    Register string string
  | ApproveUser string
  | SetUserAdmin string bool
  | CreateGroup string
  | EditUserGroup string string bool
  | EditGroupPermission string string string bool
  | EditUserPermission string string string bool
  | SetAllowRegister bool

text \<open>
  \<open>traced self\<close> behaves as \<open>self\<close> on the first component of its state and appends
  every mutating call to the second.
\<close>

definition traced :: "'s backend \<Rightarrow> ('s \<times> call list) backend" where
  "traced self =
     \<lparr>mutable = mutable self,
      default_read = default_read self,
      default_write = default_write self,
      token_expiration = token_expiration self,
      signing_key = signing_key self,
      request_userid = request_userid self,
      effective_principals = effective_principals self,
      pwd_verify = pwd_verify self,
      hmac_sha256 = hmac_sha256 self,
      user_permissions = (\<lambda>t. user_permissions self (fst t)),
      group_permissions = (\<lambda>t. group_permissions self (fst t)),
      is_admin = (\<lambda>t. is_admin self (fst t)),
      groups = (\<lambda>t. groups self (fst t)),
      get_password_hash = (\<lambda>t. get_password_hash self (fst t)),
      user_data = (\<lambda>t. user_data self (fst t)),
      pending_users = (\<lambda>t. pending_users self (fst t)),
      group_members = (\<lambda>t. group_members self (fst t)),
      register = (\<lambda>u p t. (register self u p (fst t), snd t @ [Register u p])),
      approve_user = (\<lambda>u t. (approve_user self u (fst t), snd t @ [ApproveUser u])),
      set_user_admin = (\<lambda>u a t. (set_user_admin self u a (fst t), snd t @ [SetUserAdmin u a])),
      create_group = (\<lambda>g t. (create_group self g (fst t), snd t @ [CreateGroup g])),
      edit_user_group =
        (\<lambda>u g a t. (edit_user_group self u g a (fst t), snd t @ [EditUserGroup u g a])),
      edit_group_permission =
        (\<lambda>p g x a t. (edit_group_permission self p g x a (fst t), snd t @ [EditGroupPermission p g x a])),
      edit_user_permission =
        (\<lambda>p u x a t. (edit_user_permission self p u x a (fst t), snd t @ [EditUserPermission p u x a])),
      set_allow_register =
        (\<lambda>a t. (set_allow_register self a (fst t), snd t @ [SetAllowRegister a]))\<rparr>"

section \<open>Properties\<close>

subsection \<open>Evaluating the example backend\<close>

lemmas store_simps =
  example_backend_def store_backend_def example_store_def empty_store_def
  store_pending_users_def store_groups_def store_group_members_def store_is_admin_def
  store_get_password_hash_def store_user_data_def example_verify_def

subsection \<open>Dictionaries\<close>

lemma map_of_dict_set: "map_of (dict_set k v d) = (map_of d)(k \<mapsto> v)"
  by (induction d) auto

lemma keys_dict_set: "fst ` set (dict_set k v d) = insert k (fst ` set d)"
  by (induction k v d rule: dict_set.induct) auto

lemma distinct_dict_set: "distinct (map fst d) \<Longrightarrow> distinct (map fst (dict_set k v d))"
  by (induction d) (auto simp: keys_dict_set)

lemma dict_set_not_Nil: "dict_set k v d \<noteq> []"
  by (cases d) (auto split: if_splits)

lemma in_dict_get_iff:
  "perm \<in> set (dict_get d p) \<longleftrightarrow> (\<exists>perms. map_of d p = Some perms \<and> perm \<in> set perms)"
  by (cases "map_of d p") (simp_all add: dict_get_def)

lemma fold_dict_set_not_Nil:
  "d \<noteq> [] \<or> xs \<noteq> [] \<Longrightarrow> fold (\<lambda>(k, v). dict_set (f k) v) xs d \<noteq> []"
proof (induction xs arbitrary: d)
  case Nil
  then show ?case by simp
next
  case (Cons x xs)
  obtain k v where x: "x = (k, v)" by (cases x)
  have "dict_set (f k) v d \<noteq> []" by (rule dict_set_not_Nil)
  then show ?case using Cons.IH[of "dict_set (f k) v d"] by (simp add: x)
qed

lemma keys_fold_dict_set:
  "fst ` set (fold (\<lambda>(k, v). dict_set (f k) v) xs d) = fst ` set d \<union> f ` fst ` set xs"
  by (induction xs arbitrary: d)
     (simp_all add: keys_dict_set split_beta Un_commute insert_commute image_Un, blast?)

subsection \<open>The defaults of \<open>allowed_permissions\<close>\<close>

lemma map_of_fold_read:
  "map_of (fold (\<lambda>prin. dict_set prin v) R d) p = (if p \<in> set R then Some v else map_of d p)"
  by (induction R arbitrary: d) (auto simp: map_of_dict_set)

lemma distinct_fold_read:
  "distinct (map fst d) \<Longrightarrow> distinct (map fst (fold (\<lambda>prin. dict_set prin v) R d))"
  by (induction R arbitrary: d) (auto simp: distinct_dict_set)

lemma map_of_add_default_write:
  "map_of (add_default_write w d) p =
     (if p = w then Some (dict_get d w @ [''write'']) else map_of d p)"
  by (cases "map_of d w") (simp_all add: add_default_write_def map_of_dict_set dict_get_def)

lemma distinct_add_default_write:
  "distinct (map fst d) \<Longrightarrow> distinct (map fst (add_default_write w d))"
  by (cases "map_of d w") (simp_all add: add_default_write_def distinct_dict_set)

lemma dict_get_add_default_write:
  "dict_get (add_default_write w d) p = (if p = w then dict_get d w @ [''write''] else dict_get d p)"
  by (simp add: dict_get_def map_of_add_default_write)

lemma map_of_fold_write:
  "map_of (fold add_default_write W d) p =
     (if p \<in> set W then Some (dict_get d p @ replicate (count_list W p) ''write'') else map_of d p)"
proof (induction W arbitrary: d)
  case Nil
  then show ?case by simp
next
  case (Cons w W)
  show ?case
    by (simp add: Cons.IH map_of_add_default_write dict_get_add_default_write
          replicate_append_same dict_get_def)
qed

lemma distinct_fold_write:
  "distinct (map fst d) \<Longrightarrow> distinct (map fst (fold add_default_write W d))"
  by (induction W arbitrary: d) (auto simp: distinct_add_default_write)

lemma allowed_permissions_empty:
  assumes "user_permissions self s package = []" "group_permissions self s package = []"
  shows "allowed_permissions self s package =
           fold add_default_write (groups_to_principals (default_write self))
             (fold (\<lambda>prin. dict_set prin [''read'']) (groups_to_principals (default_read self)) [])"
  using assms by (simp add: allowed_permissions_def)

lemma allowed_permissions_explicit:
  assumes "user_permissions self s package \<noteq> [] \<or> group_permissions self s package \<noteq> []"
  shows "allowed_permissions self s package =
           fold (\<lambda>(grp, perms). dict_set (group_to_principal grp) perms)
             (group_permissions self s package)
             (fold (\<lambda>(user, perms). dict_set (''user:'' @ user) perms)
                (user_permissions self s package) [])"
proof -
  let ?u = "fold (\<lambda>(user, perms). dict_set (''user:'' @ user) perms)
              (user_permissions self s package) []"
  have "?u \<noteq> [] \<or> group_permissions self s package \<noteq> []"
    using assms fold_dict_set_not_Nil[of "[]" "user_permissions self s package" "\<lambda>u. ''user:'' @ u"]
    by auto
  then have "fold (\<lambda>(grp, perms). dict_set (group_to_principal grp) perms)
               (group_permissions self s package) ?u \<noteq> []"
    by (rule fold_dict_set_not_Nil)
  then show ?thesis by (simp add: allowed_permissions_def Let_def)
qed

text \<open>
  Claim C1. For a package with no explicit user or group grant, \<open>allowed_permissions\<close>
  is exactly the configured defaults: a principal of \<^verbatim>\<open>default_read\<close> holds
  \<^verbatim>\<open>read\<close>, a principal of \<^verbatim>\<open>default_write\<close> has \<^verbatim>\<open>write\<close> added (once for each time
  the list names it), a principal of both holds both, and no other principal has an entry.
  For a package with any explicit grant the result does not depend on the defaults at all:
  it is the same under every other pair of default lists, and its keys are the principals
  of the explicit grants. The principals of a default list are its entries under
  \<open>group_to_principal\<close>.
\<close>

theorem allowed_permissions_defaults:
  "(user_permissions self s package = [] \<and> group_permissions self s package = [] \<longrightarrow>
      map_of (allowed_permissions self s package) p =
        (if p \<in> set (groups_to_principals (default_read self))
                \<union> set (groups_to_principals (default_write self))
         then Some ((if p \<in> set (groups_to_principals (default_read self)) then [''read''] else [])
                    @ replicate (count_list (groups_to_principals (default_write self)) p) ''write'')
         else None)
      \<and> map_option set (map_of (allowed_permissions self s package) p) =
        (if p \<in> set (groups_to_principals (default_read self))
                \<union> set (groups_to_principals (default_write self))
         then Some ((if p \<in> set (groups_to_principals (default_read self)) then {''read''} else {})
                    \<union> (if p \<in> set (groups_to_principals (default_write self)) then {''write''} else {}))
         else None)
      \<and> distinct (map fst (allowed_permissions self s package)))
   \<and> (user_permissions self s package \<noteq> [] \<or> group_permissions self s package \<noteq> [] \<longrightarrow>
      allowed_permissions self s package =
        allowed_permissions (self\<lparr>default_read := dr, default_write := dw\<rparr>) s package
      \<and> fst ` set (allowed_permissions self s package) =
          (\<lambda>user. ''user:'' @ user) ` fst ` set (user_permissions self s package)
          \<union> group_to_principal ` fst ` set (group_permissions self s package))"
proof (intro conjI impI)
  assume e: "user_permissions self s package = [] \<and> group_permissions self s package = []"
  let ?R = "groups_to_principals (default_read self)"
  let ?W = "groups_to_principals (default_write self)"
  have eq: "allowed_permissions self s package =
      fold add_default_write ?W (fold (\<lambda>prin. dict_set prin [''read'']) ?R [])"
    using e by (simp add: allowed_permissions_empty)
  show m: "map_of (allowed_permissions self s package) p =
        (if p \<in> set ?R \<union> set ?W
         then Some ((if p \<in> set ?R then [''read''] else []) @ replicate (count_list ?W p) ''write'')
         else None)"
    by (simp add: eq map_of_fold_write map_of_fold_read dict_get_def)
  show "map_option set (map_of (allowed_permissions self s package) p) =
        (if p \<in> set ?R \<union> set ?W
         then Some ((if p \<in> set ?R then {''read''} else {}) \<union> (if p \<in> set ?W then {''write''} else {}))
         else None)"
    by (auto simp add: m count_list_0_iff)
  show "distinct (map fst (allowed_permissions self s package))"
    by (simp add: eq distinct_fold_write distinct_fold_read)
next
  assume ne: "user_permissions self s package \<noteq> [] \<or> group_permissions self s package \<noteq> []"
  let ?self' = "self\<lparr>default_read := dr, default_write := dw\<rparr>"
  have ne': "user_permissions ?self' s package \<noteq> [] \<or> group_permissions ?self' s package \<noteq> []"
    using ne by simp
  show "allowed_permissions self s package = allowed_permissions ?self' s package"
    by (simp add: allowed_permissions_explicit[OF ne] allowed_permissions_explicit[OF ne'])
  show "fst ` set (allowed_permissions self s package) =
          (\<lambda>user. ''user:'' @ user) ` fst ` set (user_permissions self s package)
          \<union> group_to_principal ` fst ` set (group_permissions self s package)"
    by (simp add: allowed_permissions_explicit[OF ne] keys_fold_dict_set)
qed

text \<open>
  The example backend reads \<^verbatim>\<open>default_read = ["authenticated"]\<close> and no default
  writers: package \<^verbatim>\<open>bar\<close>, which has no grant, gives \<^verbatim>\<open>read\<close> to the authenticated
  principal and has no entry for \<^verbatim>\<open>everyone\<close>; with \<^verbatim>\<open>authenticated\<close> also a default
  writer the principal holds both; package \<^verbatim>\<open>foo\<close>, where alice has a grant, has her
  principal as its only key.
\<close>

theorem allowed_permissions_defaults_witness:
  "user_permissions example_backend example_store ''bar'' = []
   \<and> group_permissions example_backend example_store ''bar'' = []
   \<and> map_of (allowed_permissions example_backend example_store ''bar'') Authenticated = Some [''read'']
   \<and> map_of (allowed_permissions example_backend example_store ''bar'') Everyone = None
   \<and> map_of (allowed_permissions (example_backend\<lparr>default_write := [''authenticated'']\<rparr>)
        example_store ''bar'') Authenticated = Some [''read'', ''write'']
   \<and> user_permissions example_backend example_store ''foo'' \<noteq> []
   \<and> fst ` set (allowed_permissions example_backend example_store ''foo'') = {''user:alice''}"
proof -
  have e: "user_permissions example_backend example_store ''bar'' = []
      \<and> group_permissions example_backend example_store ''bar'' = []"
    by (simp add: store_simps)
  let ?b = "example_backend\<lparr>default_write := [''authenticated'']\<rparr>"
  have e': "user_permissions ?b example_store ''bar'' = [] \<and> group_permissions ?b example_store ''bar'' = []"
    by (simp add: store_simps)
  have n: "user_permissions example_backend example_store ''foo'' \<noteq> []"
    by (simp add: store_simps)
  have 1: "map_of (allowed_permissions example_backend example_store ''bar'') Authenticated = Some [''read'']"
    using allowed_permissions_defaults[of example_backend example_store "''bar''" Authenticated] e
    by (simp add: store_simps groups_to_principals_def group_to_principal_def Authenticated_def Everyone_def)
  have 2: "map_of (allowed_permissions example_backend example_store ''bar'') Everyone = None"
    using allowed_permissions_defaults[of example_backend example_store "''bar''" Everyone] e
    by (simp add: store_simps groups_to_principals_def group_to_principal_def Authenticated_def Everyone_def)
  have 3: "map_of (allowed_permissions ?b example_store ''bar'') Authenticated = Some [''read'', ''write'']"
    using allowed_permissions_defaults[of ?b example_store "''bar''" Authenticated] e'
    by (simp add: store_simps groups_to_principals_def group_to_principal_def Authenticated_def Everyone_def)
  have 4: "fst ` set (allowed_permissions example_backend example_store ''foo'') = {''user:alice''}"
    using allowed_permissions_defaults[of example_backend example_store "''foo''"] n
    by (simp add: store_simps)
  from e n 1 2 3 4 show ?thesis by simp
qed

subsection \<open>\<open>has_permission\<close>\<close>

lemma any_principal_has_iff:
  "any_principal_has perms perm ps \<longleftrightarrow> (\<exists>p \<in> set ps. perm \<in> set (dict_get perms p))"
  by (induction ps) auto

text \<open>
  Claim C2. \<open>has_permission\<close> is true whenever the requesting user is an administrator
  (the request names a user and \<open>is_admin\<close> holds of that user), whatever the package
  and the permission. Otherwise it is true exactly when some effective principal of the
  request has an entry in \<open>allowed_permissions\<close> of the package that contains the
  permission.
\<close>

theorem has_permission_admin_or_principal:
  "((\<exists>u. request_userid self = Some u \<and> is_admin self s u) \<longrightarrow>
      has_permission self s package perm)
   \<and> (\<not> (\<exists>u. request_userid self = Some u \<and> is_admin self s u) \<longrightarrow>
        has_permission self s package perm =
          (\<exists>p \<in> set (effective_principals self). \<exists>perms.
              map_of (allowed_permissions self s package) p = Some perms \<and> perm \<in> set perms))"
  by (cases "request_userid self")
     (simp_all add: has_permission_def any_principal_has_iff in_dict_get_iff)

text \<open>
  On the example store alice is an administrator and may write \<^verbatim>\<open>bar\<close>, which nobody is
  granted; carol, not an administrator, may not write \<^verbatim>\<open>foo\<close>, where only alice holds a
  grant.
\<close>

theorem has_permission_admin_or_principal_witness:
  "is_admin example_backend example_store ''alice''
   \<and> has_permission (example_backend\<lparr>request_userid := Some ''alice''\<rparr>) example_store ''bar'' ''write''
   \<and> \<not> is_admin example_backend example_store ''carol''
   \<and> \<not> has_permission
          (example_backend\<lparr>request_userid := Some ''carol'',
             effective_principals := [''user:carol'', Everyone, Authenticated, ''group:qa'']\<rparr>)
          example_store ''foo'' ''write''"
proof -
  let ?a = "example_backend\<lparr>request_userid := Some ''alice''\<rparr>"
  let ?c = "example_backend\<lparr>request_userid := Some ''carol'',
             effective_principals := [''user:carol'', Everyone, Authenticated, ''group:qa'']\<rparr>"
  have a: "is_admin example_backend example_store ''alice''"
    by (simp add: store_simps)
  have c: "\<not> is_admin example_backend example_store ''carol''"
    by (simp add: store_simps)
  have 1: "has_permission ?a example_store ''bar'' ''write''"
    using has_permission_admin_or_principal[of ?a example_store "''bar''" "''write''"] a
    by (simp add: store_simps)
  have d: "allowed_permissions ?c example_store ''foo'' = [(''user:alice'', [''write'', ''read''])]"
    by (simp add: allowed_permissions_def store_simps)
  have 2: "\<not> has_permission ?c example_store ''foo'' ''write''"
    using has_permission_admin_or_principal[of ?c example_store "''foo''" "''write''"] c
    by (simp add: d) (simp add: store_simps Everyone_def Authenticated_def)
  from a c 1 2 show ?thesis by simp
qed

subsection \<open>\<open>get_acl\<close>\<close>

lemma get_acl_fold_inner:
  "fold (\<lambda>perm acl. acl @ [(a, p, perm)]) perms acl = acl @ map (\<lambda>perm. (a, p, perm)) perms"
  by (induction perms arbitrary: acl) auto

lemma get_acl_fold_outer:
  "fold (\<lambda>(prin, perms) acl. fold (\<lambda>perm acl. acl @ [(a, prin, perm)]) perms acl) d acl =
   acl @ concat (map (\<lambda>(prin, perms). map (\<lambda>perm. (a, prin, perm)) perms) d)"
  by (induction d arbitrary: acl) (auto simp: get_acl_fold_inner)

text \<open>
  Claim C8, as amended. \<open>get_acl\<close> returns one (Allow, principal, permission) triple for
  each permission of each principal of \<open>allowed_permissions\<close>, in the order in which that
  dictionary is walked (the order its keys were inserted: user grants, then group grants,
  or else the defaults), the permissions of one principal in the order they are stored.
  The code sorts nothing.
\<close>

theorem get_acl_in_dictionary_order:
  "get_acl self s package =
     concat (map (\<lambda>(prin, perms). map (\<lambda>perm. (Allow, prin, perm)) perms)
               (allowed_permissions self s package))"
  by (simp add: get_acl_def get_acl_fold_outer)

text \<open>
  The claim as stated asks for the triples sorted by principal and then by permission. On
  the example store alice holds \<^verbatim>\<open>write\<close> and \<^verbatim>\<open>read\<close> on \<^verbatim>\<open>foo\<close>, stored in that
  order, and the list comes out as stored: \<^verbatim>\<open>write\<close> before \<^verbatim>\<open>read\<close>.
\<close>

theorem get_acl_not_sorted:
  "get_acl example_backend example_store ''foo'' =
     [(Allow, ''user:alice'', ''write''), (Allow, ''user:alice'', ''read'')]
   \<and> \<not> sorted (map snd (get_acl example_backend example_store ''foo''))"
  by (simp add: get_acl_def allowed_permissions_def store_simps Allow_def)

subsection \<open>\<open>in_group\<close>\<close>




subsection \<open>\<open>verify_user\<close>\<close>

text \<open>
  Claim C7. On a mutable backend that keeps its pending users out of \<^verbatim>\<open>user_data\<close> (the
  contract of that method), \<open>verify_user\<close> is false for a pending user whatever the
  password and the stored hash. For a user \<^verbatim>\<open>user_data\<close> knows (an approved one) it is
  true exactly when a hash is stored, the hash is not empty, and the context's
  verification accepts the password against it.
\<close>

theorem verify_user_pending:
  assumes "mutable self"
    and "\<forall>u \<in> set (pending_users self s). user_data self s u = None"
  shows "(username \<in> set (pending_users self s) \<longrightarrow>
            verify_user self s username password = Inr False)
    \<and> (user_data self s username \<noteq> None \<longrightarrow>
         (verify_user self s username password = Inr True \<longleftrightarrow>
           (\<exists>h. get_password_hash self s username = Some h \<and> h \<noteq> []
                \<and> pwd_verify self password h = Inr True)))"
  using assms by (auto simp: verify_user_def split: option.splits)

text \<open>
  On the example store eve is pending and her password matches her stored hash, yet she
  does not verify; alice, approved, verifies with her password.
\<close>

theorem verify_user_pending_witness:
  "mutable example_backend
   \<and> ''eve'' \<in> set (pending_users example_backend example_store)
   \<and> get_password_hash example_backend example_store ''eve'' = Some ''$pw''
   \<and> pwd_verify example_backend ''pw'' ''$pw'' = Inr True
   \<and> verify_user example_backend example_store ''eve'' ''pw'' = Inr False
   \<and> user_data example_backend example_store ''alice'' \<noteq> None
   \<and> verify_user example_backend example_store ''alice'' ''secret'' = Inr True"
proof -
  have m: "mutable example_backend"
    by (simp add: store_simps)
  have p: "\<forall>u \<in> set (pending_users example_backend example_store).
             user_data example_backend example_store u = None"
    by (simp add: store_simps)
  have e: "''eve'' \<in> set (pending_users example_backend example_store)"
    by (simp add: store_simps)
  have a: "user_data example_backend example_store ''alice'' \<noteq> None"
    by (simp add: store_simps)
  have h: "get_password_hash example_backend example_store ''alice'' = Some ''$secret''"
    "get_password_hash example_backend example_store ''eve'' = Some ''$pw''"
    by (simp_all add: store_simps)
  have v: "pwd_verify example_backend ''secret'' ''$secret'' = Inr True"
    "pwd_verify example_backend ''pw'' ''$pw'' = Inr True"
    by (simp_all add: store_simps)
  from verify_user_pending[OF m p, of "''eve''" "''pw''"] e
  have 1: "verify_user example_backend example_store ''eve'' ''pw'' = Inr False" by blast
  from verify_user_pending[OF m p, of "''alice''" "''secret''"] a h v
  have 2: "verify_user example_backend example_store ''alice'' ''secret'' = Inr True" by simp
  from m e a h v 1 2 show ?thesis by blast
qed

text \<open>
  Claim C10. For a username with no stored hash (\<^verbatim>\<open>None\<close>, or the empty string)
  \<open>verify_user\<close> returns false: it raises nothing, and the result is the same whatever
  the password context's \<^verbatim>\<open>verify\<close> would do, one that always raises included, so the
  context is not consulted.
\<close>

theorem verify_user_no_hash:
  "get_password_hash self s username = None \<or> get_password_hash self s username = Some [] \<Longrightarrow>
   verify_user (self\<lparr>pwd_verify := verify\<rparr>) s username password = Inr False"
  by (auto simp: verify_user_def)

text \<open>
  Nobody called mallory is in the example store; the check fails for that name on the
  mutable backend and on a read-only one, with a context that raises on every call.
\<close>

theorem verify_user_no_hash_witness:
  "get_password_hash example_backend example_store ''mallory'' = None
   \<and> verify_user (example_backend\<lparr>pwd_verify := (\<lambda>password h. Inl TypeError)\<rparr>)
        example_store ''mallory'' ''guess'' = Inr False
   \<and> verify_user (example_backend\<lparr>mutable := False, pwd_verify := (\<lambda>password h. Inl TypeError)\<rparr>)
        example_store ''mallory'' ''guess'' = Inr False"
proof -
  have h: "get_password_hash example_backend example_store ''mallory'' = None"
    by (simp add: store_simps)
  have h': "get_password_hash (example_backend\<lparr>mutable := False\<rparr>) example_store ''mallory'' = None"
    by (simp add: store_simps)
  have 1: "verify_user (example_backend\<lparr>pwd_verify := (\<lambda>password h. Inl TypeError)\<rparr>)
        example_store ''mallory'' ''guess'' = Inr False"
    using verify_user_no_hash[of example_backend example_store "''mallory''"] h by blast
  have 2: "verify_user (example_backend\<lparr>mutable := False, pwd_verify := (\<lambda>password h. Inl TypeError)\<rparr>)
        example_store ''mallory'' ''guess'' = Inr False"
    using verify_user_no_hash[of "example_backend\<lparr>mutable := False\<rparr>" example_store "''mallory''"] h'
    by blast
  from h 1 2 show ?thesis by simp
qed

subsection \<open>Splitting, printing and reading numbers\<close>

lemma split_not_Nil: "split sep s \<noteq> []"
  by (induction s) (auto split: list.splits)

lemma split_no_sep: "sep \<notin> set a \<Longrightarrow> split sep a = [a]"
  by (induction a) auto

lemma split_append_sep: "sep \<notin> set a \<Longrightarrow> split sep (a @ sep # rest) = a # split sep rest"
  by (induction a) auto

lemma length_last_split: "length (last (split sep s)) \<le> length s"
proof (induction s)
  case Nil
  then show ?case by simp
next
  case (Cons c cs)
  then show ?case
    by (cases "split sep cs") (auto simp: split_not_Nil le_Suc_eq)
qed

lemma length_last_split_less: "sep \<in> set s \<Longrightarrow> length (last (split sep s)) < length s"
proof (induction s)
  case Nil
  then show ?case by simp
next
  case (Cons c cs)
  show ?case
  proof (cases "c = sep")
    case True
    then show ?thesis using length_last_split[of sep cs] by (simp add: split_not_Nil less_Suc_eq_le)
  next
    case False
    with Cons.prems have "sep \<in> set cs" by simp
    from Cons.IH[OF this] False show ?thesis
      by (cases "split sep cs") (auto simp: split_not_Nil)
  qed
qed

lemma set_last_split: "set (last (split sep s)) \<subseteq> set s"
proof (induction s)
  case Nil
  then show ?case by simp
next
  case (Cons c cs)
  then show ?case
    by (cases "split sep cs") (auto simp: split_not_Nil split: if_splits)
qed

lemma str_of_colon: "str_of '':'' = [58]"
  by (simp add: str_of_def)

lemma digit_val_digit_char: "digit_val (digit_char n) = n"
  by (simp add: digit_val_def digit_char_def)

lemma is_digit_digit_char: "n < 10 \<Longrightarrow> is_digit (digit_char n)"
  by (simp add: is_digit_def digit_char_def)

lemma digits_show_nat: "c \<in> set (show_nat n) \<Longrightarrow> is_digit c"
  by (induction n arbitrary: c rule: show_nat.induct)
     (subst (asm) show_nat.simps, auto simp: is_digit_digit_char split: if_splits)

lemma show_nat_not_Nil: "show_nat n \<noteq> []"
  by (subst show_nat.simps) simp

lemma value_show_nat: "foldl (\<lambda>a c. 10 * a + digit_val c) 0 (show_nat n) = n"
  by (induction n rule: show_nat.induct) (subst show_nat.simps, simp add: digit_val_digit_char)

lemma length_show_nat: "0 < k \<Longrightarrow> n < 10 ^ k \<Longrightarrow> length (show_nat n) \<le> k"
proof (induction n arbitrary: k rule: show_nat.induct)
  case (1 n)
  show ?case
  proof (cases "n < 10")
    case True
    then show ?thesis using "1.prems" by (subst show_nat.simps) simp
  next
    case False
    then obtain k' where k: "k = Suc k'" "0 < k'"
      using "1.prems" by (cases k; cases "k - 1") auto
    have "n div 10 < 10 ^ k'" using "1.prems" k by (simp add: less_mult_imp_div_less mult.commute)
    from "1.IH"[OF False k(2) this] False k show ?thesis
      by (subst show_nat.simps) simp
  qed
qed

lemma is_digit_not_underscore: "is_digit c \<Longrightarrow> c \<noteq> 95"
  by (auto simp: is_digit_def)

lemma parse_digits_digits:
  "ds \<noteq> [] \<Longrightarrow> (\<And>c. c \<in> set ds \<Longrightarrow> is_digit c) \<Longrightarrow>
   parse_digits acc ds = Some (foldl (\<lambda>a c. 10 * a + digit_val c) acc ds)"
proof (induction ds arbitrary: acc)
  case Nil
  then show ?case by simp
next
  case (Cons c cs)
  show ?case
  proof (cases cs)
    case Nil
    with Cons.prems show ?thesis by simp
  next
    case (Cons d ds')
    with Cons.prems have d: "d \<noteq> 95" by (simp add: is_digit_not_underscore)
    have c: "is_digit c" using Cons.prems by simp
    have "parse_digits acc (c # d # ds') = parse_digits (10 * acc + digit_val c) (d # ds')"
      by (subst parse_digits.simps) (simp only: c d Let_def if_True if_False list.case)
    also have "\<dots> = Some (foldl (\<lambda>a c. 10 * a + digit_val c) (10 * acc + digit_val c) (d # ds'))"
      using Cons.IH[of "10 * acc + digit_val c"] Cons.prems Cons by simp
    finally show ?thesis using Cons by simp
  qed
qed

lemma parse_digits_show_nat: "parse_digits 0 (show_nat n) = Some n"
  by (simp add: parse_digits_digits show_nat_not_Nil digits_show_nat value_show_nat)

lemma filter_digits_show_nat: "filter is_digit (show_nat n) = show_nat n"
  by (simp add: digits_show_nat)

lemma parse_number_show_nat:
  "length (show_nat n) \<le> max_str_digits \<Longrightarrow> parse_number (show_nat n) = Some n"
  by (simp add: parse_number_def filter_digits_show_nat parse_digits_show_nat)

lemma dropWhile_none: "(\<And>c. c \<in> set xs \<Longrightarrow> \<not> P c) \<Longrightarrow> dropWhile P xs = xs"
  by (induction xs) auto

lemma strip_no_space: "(\<And>c. c \<in> set s \<Longrightarrow> \<not> is_space c) \<Longrightarrow> strip s = s"
proof -
  assume a: "\<And>c. c \<in> set s \<Longrightarrow> \<not> is_space c"
  then have 1: "dropWhile is_space s = s" by (rule dropWhile_none)
  from a have 2: "dropWhile is_space (rev s) = rev s" by (intro dropWhile_none) simp
  show ?thesis by (simp add: strip_def 1 2)
qed

lemma is_digit_facts:
  "is_digit c \<Longrightarrow> \<not> is_space c \<and> c \<noteq> 45 \<and> c \<noteq> 43 \<and> c \<noteq> 58 \<and> c < 128 \<and> \<not> is_surrogate c"
  by (auto simp: is_digit_def is_space_def is_surrogate_def)

lemma show_int_chars: "c \<in> set (show_int i) \<Longrightarrow> c = 45 \<or> is_digit c"
  by (auto simp: show_int_def dest: digits_show_nat split: if_splits)

lemma show_int_facts:
  "c \<in> set (show_int i) \<Longrightarrow> \<not> is_space c \<and> c \<noteq> 58 \<and> c < 128 \<and> \<not> is_surrogate c"
  using show_int_chars[of c i] is_digit_facts[of c]
  by (auto simp: is_space_def is_surrogate_def)

lemma to_ascii_show_int: "to_ascii (show_int i) = show_int i"
  by (simp add: to_ascii_def list_all_iff show_int_facts)

lemma py_int_show_int:
  assumes "length (show_nat (nat \<bar>i\<bar>)) \<le> max_str_digits"
  shows "py_int (show_int i) = Some i"
proof -
  have s: "strip (show_int i) = show_int i"
    by (rule strip_no_space) (simp add: show_int_facts)
  show ?thesis
  proof (cases "i < 0")
    case True
    then have "nat \<bar>i\<bar> = nat (- i)" by simp
    with assms True show ?thesis
      by (simp add: py_int_def to_ascii_show_int s) (simp add: show_int_def parse_number_show_nat)
  next
    case False
    then have n: "nat \<bar>i\<bar> = nat i" by simp
    obtain c cs where cs: "show_nat (nat i) = c # cs"
      using show_nat_not_Nil[of "nat i"] by (cases "show_nat (nat i)") auto
    then have "is_digit c" using digits_show_nat[of c "nat i"] by simp
    then have "c \<noteq> 45" "c \<noteq> 43" by (simp_all add: is_digit_facts)
    moreover have "parse_number (c # cs) = Some (nat i)"
      using parse_number_show_nat[of "nat i"] assms n cs by simp
    ultimately show ?thesis
      using False cs by (simp add: py_int_def to_ascii_show_int s) (simp add: show_int_def)
  qed
qed

lemma no_colon_show_int: "58 \<notin> set (show_int i)"
  using show_int_facts[of 58 i] by auto

lemma hex_char_in: "n < 16 \<Longrightarrow> hex_char n \<in> set (str_of ''0123456789abcdef'')"
  unfolding hex_char_def by (rule nth_mem) (simp add: str_of_def)

lemma hexdigest_chars: "c \<in> set (hexdigest bytes) \<Longrightarrow> c \<in> set (str_of ''0123456789abcdef'')"
proof -
  have 1: "unat b div 16 < 16" for b :: "8 word"
    using unsigned_less[of b, where 'a=nat] by (simp add: less_mult_imp_div_less)
  have 2: "unat b mod 16 < 16" for b :: "8 word"
    by simp
  assume "c \<in> set (hexdigest bytes)"
  then show ?thesis
    using hex_char_in[OF 1] hex_char_in[OF 2] by (auto simp: hexdigest_def)
qed

lemma hexdigest_facts:
  "c \<in> set (hexdigest bytes) \<Longrightarrow> c \<noteq> 58 \<and> c < 128 \<and> \<not> is_surrogate c"
  by (drule hexdigest_chars) (auto simp: str_of_def is_surrogate_def)

lemma int_of_float_of_int: "int_of_float (real_of_int i) = i"
  unfolding int_of_float_def by simp

subsection \<open>UTF-8\<close>

lemma utf8_bytes_ascii: "c < 128 \<Longrightarrow> utf8_bytes c = [of_nat c]"
  by (simp add: utf8_bytes_def)

lemma utf8_ascii: "(\<And>c. c \<in> set s \<Longrightarrow> c < 128) \<Longrightarrow> concat (map utf8_bytes s) = map of_nat s"
  by (induction s) (simp_all add: utf8_bytes_ascii)

lemma unat_byte: "n < 256 \<Longrightarrow> unat (of_nat n :: 8 word) = n"
  by (simp add: unsigned_of_nat take_bit_eq_mod)

lemma unat_ascii: "n < 128 \<Longrightarrow> unat (of_nat n :: 8 word) = n"
  by (simp add: unat_byte)

lemma utf8_bytes_high: "128 \<le> c \<Longrightarrow> 128 \<le> unat (hd (utf8_bytes c))"
proof -
  assume c: "128 \<le> c"
  have a: "unat (of_nat (192 + c div 64) :: 8 word) = 192 + c div 64" if "c < 2048"
    using that by (intro unat_byte) simp
  have b: "unat (of_nat (224 + c div 4096) :: 8 word) = 224 + c div 4096" if "c < 65536"
    using that by (intro unat_byte) simp
  have "c div 262144 mod 8 < 8" by (rule mod_less_divisor) simp
  then have d: "unat (of_nat (240 + c div 262144 mod 8) :: 8 word) = 240 + c div 262144 mod 8"
    by (intro unat_byte) linarith
  consider "c < 2048" | "2048 \<le> c" "c < 65536" | "65536 \<le> c" by linarith
  then show ?thesis
  proof cases
    case 1
    have "utf8_bytes c = [of_nat (192 + c div 64), of_nat (128 + c mod 64)]"
      using c 1 unfolding utf8_bytes_def by simp
    then show ?thesis using a[OF 1] by (simp only: list.sel, simp?)
  next
    case 2
    have "utf8_bytes c = [of_nat (224 + c div 4096), of_nat (128 + c div 64 mod 64), of_nat (128 + c mod 64)]"
      using c 2 unfolding utf8_bytes_def by simp
    then show ?thesis using b[OF 2(2)] by (simp only: list.sel, simp?)
  next
    case 3
    have "utf8_bytes c = [of_nat (240 + c div 262144 mod 8), of_nat (128 + c div 4096 mod 64),
         of_nat (128 + c div 64 mod 64), of_nat (128 + c mod 64)]"
      using c 3 unfolding utf8_bytes_def by simp
    then show ?thesis using d by (simp only: list.sel, simp?)
  qed
qed


lemma map_of_nat_byte_inj:
  assumes "map (of_nat :: nat \<Rightarrow> 8 word) s = map of_nat e"
    and "\<forall>c \<in> set s. c < 128" and "\<forall>c \<in> set e. c < 128"
  shows "s = e"
proof -
  have "map unat (map (of_nat :: nat \<Rightarrow> 8 word) s) = s"
    using assms(2) by (induction s) (simp_all add: unat_ascii)
  moreover have "map unat (map (of_nat :: nat \<Rightarrow> 8 word) e) = e"
    using assms(3) by (induction e) (simp_all add: unat_ascii)
  ultimately show ?thesis using assms(1) by metis
qed

lemma utf8_bytes_not_Nil: "utf8_bytes c \<noteq> []"
  by (simp add: utf8_bytes_def)

lemma utf8_low:
  assumes "\<And>b. b \<in> set (concat (map utf8_bytes s)) \<Longrightarrow> unat b < 128" and "c \<in> set s"
  shows "c < 128"
proof (rule ccontr)
  assume "\<not> c < 128"
  then have "128 \<le> unat (hd (utf8_bytes c))" by (simp add: utf8_bytes_high)
  moreover have "hd (utf8_bytes c) \<in> set (concat (map utf8_bytes s))"
    using assms(2) utf8_bytes_not_Nil[of c] by (auto intro!: bexI[of _ c])
  ultimately show False using assms(1) by fastforce
qed

lemma utf8_eq_ascii:
  assumes e: "\<And>c. c \<in> set e \<Longrightarrow> c < 128"
  shows "concat (map utf8_bytes s) = concat (map utf8_bytes e) \<longleftrightarrow> s = e"
proof
  assume eq: "concat (map utf8_bytes s) = concat (map utf8_bytes e)"
  have ee: "concat (map utf8_bytes e) = map of_nat e" using e by (rule utf8_ascii)
  have "unat b < 128" if "b \<in> set (concat (map utf8_bytes s))" for b
  proof -
    from that eq ee obtain c where "c \<in> set e" "b = of_nat c" by auto
    then show ?thesis using e[of c] by (simp add: unat_byte)
  qed
  then have s: "c < 128" if "c \<in> set s" for c using that utf8_low by blast
  then have "concat (map utf8_bytes s) = map of_nat s" by (rule utf8_ascii)
  with eq ee have "map (of_nat :: nat \<Rightarrow> 8 word) s = map of_nat e" by simp
  then show "s = e" using s e by (intro map_of_nat_byte_inj) simp_all
next
  assume "s = e"
  then show "concat (map utf8_bytes s) = concat (map utf8_bytes e)" by simp
qed

lemma encode_utf8_ok: "\<not> list_ex is_surrogate s \<Longrightarrow> encode_utf8 s = Inr (concat (map utf8_bytes s))"
  by (simp add: encode_utf8_def)

lemma encode_utf8_fails: "list_ex is_surrogate s \<Longrightarrow> encode_utf8 s = Inl UnicodeEncodeError"
  by (simp add: encode_utf8_def)

lemma no_surrogate_show_int: "\<not> list_ex is_surrogate (show_int i)"
  by (simp add: list_ex_iff show_int_facts)

lemma no_surrogate_hexdigest: "\<not> list_ex is_surrogate (hexdigest bytes)"
  by (simp add: list_ex_iff hexdigest_facts)

lemma format_d_ok:
  "length (show_nat (nat \<bar>i\<bar>)) \<le> max_str_digits \<Longrightarrow> format_d i = Inr (show_int i)"
  by (simp add: format_d_def)

lemma abs_int_of_float: "\<bar>real_of_int (int_of_float t)\<bar> \<le> \<bar>t\<bar>"
proof (cases "0 \<le> t")
  case True
  then have "0 \<le> \<lfloor>t\<rfloor>" by simp
  then show ?thesis using True by (simp add: int_of_float_def)
next
  case False
  then have "\<lceil>t\<rceil> \<le> 0" by (simp add: ceiling_le_zero)
  moreover have "t \<le> real_of_int \<lceil>t\<rceil>" by (rule le_of_int_ceiling)
  ultimately show ?thesis using False by (simp add: int_of_float_def)
qed

lemma float_digits_bound:
  assumes t: "\<bar>t\<bar> < 2 ^ k" and k: "0 < k" "k \<le> m"
  shows "length (show_nat (nat \<bar>int_of_float t\<bar>)) \<le> m"
proof -
  have "real_of_int \<bar>int_of_float t\<bar> < 2 ^ k"
    using abs_int_of_float[of t] t by simp
  also have "(2::real) ^ k = real_of_int (2 ^ k)" by simp
  finally have "\<bar>int_of_float t\<bar> < 2 ^ k" by (simp only: of_int_less_iff)
  then have "nat \<bar>int_of_float t\<bar> < 2 ^ k" by (simp add: nat_less_iff)
  also have "(2::nat) ^ k < 10 ^ k" using k(1) by (intro power_strict_mono) simp_all
  also have "(10::nat) ^ k \<le> 10 ^ m" using k(2) by (intro power_increasing) simp_all
  finally have "nat \<bar>int_of_float t\<bar> < 10 ^ m" .
  moreover have "0 < m" using k by simp
  ultimately show ?thesis by (intro length_show_nat)
qed

lemma float_digits:
  assumes "\<bar>t\<bar> < 2 ^ 1024"
  shows "length (show_nat (nat \<bar>int_of_float t\<bar>)) \<le> max_str_digits"
  unfolding max_str_digits_def using assms by (rule float_digits_bound) simp_all

subsection \<open>Signup tokens\<close>

lemma hmac_Some:
  assumes "signing_key self = Some key"
    and "\<not> list_ex is_surrogate key"
    and "\<not> list_ex is_surrogate username"
    and "length (show_nat (nat \<bar>int_of_float t\<bar>)) \<le> max_str_digits"
  shows "hmac self username t =
     Inr (username @ 58 # show_int (int_of_float t),
          hexdigest (hmac_sha256 self (concat (map utf8_bytes key))
            (concat (map utf8_bytes (username @ 58 # show_int (int_of_float t))))))"
proof -
  have "\<not> list_ex is_surrogate (username @ 58 # show_int (int_of_float t))"
    using assms(3) no_surrogate_show_int[of "int_of_float t"] by (simp add: is_surrogate_def)
  then show ?thesis
    using assms by (simp add: hmac_def format_d_ok str_of_colon encode_utf8_ok)
qed

lemma hmac_surrogate:
  assumes "signing_key self = Some key"
    and "list_ex is_surrogate username"
    and "length (show_nat (nat \<bar>int_of_float t\<bar>)) \<le> max_str_digits"
  shows "hmac self username t = Inl UnicodeEncodeError"
proof -
  have "list_ex is_surrogate (username @ 58 # show_int (int_of_float t))"
    using assms(2) by simp
  then show ?thesis
    using assms(1,3)
    by (cases "list_ex is_surrogate key")
       (simp_all add: hmac_def format_d_ok str_of_colon encode_utf8_ok encode_utf8_fails)
qed

lemma validate_token:
  assumes key: "signing_key self = Some key"
    and kenc: "\<not> list_ex is_surrogate key"
    and u: "58 \<notin> set username"
    and uenc: "\<not> list_ex is_surrogate username"
    and i: "length (show_nat (nat \<bar>i\<bar>)) \<le> max_str_digits"
  shows "validate_signup_token self now (username @ 58 # show_int i @ 58 # sg) =
     (if real_of_int (i + token_expiration self) < now then Inr None
      else if list_ex is_surrogate (last (split 58 sg)) then Inl UnicodeEncodeError
      else if last (split 58 sg) \<noteq>
              hexdigest (hmac_sha256 self (concat (map utf8_bytes key))
                (concat (map utf8_bytes (username @ 58 # show_int i)))) then Inr None
      else Inr (Some username))"
proof -
  let ?ps = "split 58 sg"
  define ex where "ex = hexdigest (hmac_sha256 self (concat (map utf8_bytes key))
                (concat (map utf8_bytes (username @ 58 # show_int i))))"
  have sp: "split 58 (username @ 58 # show_int i @ 58 # sg) = username # show_int i # ?ps"
    using u by (simp add: split_append_sep no_colon_show_int)
  have ne: "?ps \<noteq> []" by (rule split_not_Nil)
  have l: "last (username # show_int i # ?ps) = last ?ps" using ne by simp
  have b: "butlast (username # show_int i # ?ps) = username # show_int i # butlast ?ps"
    using ne by simp
  have h: "hmac self username (real_of_int i) = Inr (username @ 58 # show_int i, ex)"
    unfolding ex_def
    using hmac_Some[OF key kenc uenc, of "real_of_int i"] i by (simp only: int_of_float_of_int)
  have e: "encode_utf8 ex = Inr (concat (map utf8_bytes ex))"
    unfolding ex_def by (rule encode_utf8_ok) (rule no_surrogate_hexdigest)
  have c: "concat (map utf8_bytes s) = concat (map utf8_bytes ex) \<longleftrightarrow> s = ex" for s
    unfolding ex_def by (rule utf8_eq_ascii) (simp add: hexdigest_facts)
  have p: "py_int (show_int i) = Some i" using i by (rule py_int_show_int)
  have "validate_signup_token self now (username @ 58 # show_int i @ 58 # sg) =
     (if real_of_int (i + token_expiration self) < now then Inr None
      else if list_ex is_surrogate (last ?ps) then Inl UnicodeEncodeError
      else if last ?ps \<noteq> ex then Inr None
      else Inr (Some username))"
  proof (cases "list_ex is_surrogate (last ?ps)")
    case True
    then show ?thesis
      using key
      by (simp add: validate_signup_token_def sp l b p h encode_utf8_fails Let_def
            del: last.simps butlast.simps)
  next
    case False
    then show ?thesis
      using key
      by (simp add: validate_signup_token_def sp l b p h e c encode_utf8_ok Let_def
            del: last.simps butlast.simps)
  qed
  then show ?thesis by (simp only: ex_def)
qed

lemmas token_simps = hmac_def get_signup_token_def validate_signup_token_def store_simps
  example_digest_def hexdigest_def hex_char_def show_int_def show_nat.simps int_of_float_def
  py_int_def parse_number_def to_ascii_def strip_def is_space_def is_digit_def digit_val_def
  digit_char_def format_d_def max_str_digits_def encode_utf8_def utf8_bytes_def
  is_surrogate_def str_of_def Let_def ONE_WEEK_def

text \<open>
  Claim C3, as amended. The signing key is set and free of surrogates, the username
  contains no colon (the code point 58), and the issue time \<open>t0\<close> is a float (below
  \<open>2 ^ 1024\<close> in magnitude). For a username that holds a surrogate no token is issued:
  \<open>get_signup_token\<close> raises \<^verbatim>\<open>UnicodeEncodeError\<close>. For any other username the token
  carries the whole seconds of \<open>t0\<close> as its issue time. Validated at time \<open>now\<close> it
  gives the username back unless the issue time plus the expiration window is less than
  \<open>now\<close>, and then it gives \<^verbatim>\<open>None\<close>. With the signature replaced by another text of
  the same length (one character altered, or several) the result is \<^verbatim>\<open>None\<close> when the
  new signature holds no surrogate; in general an expired token gives \<^verbatim>\<open>None\<close>, and
  before that the call raises \<^verbatim>\<open>UnicodeEncodeError\<close> when the piece after the last colon
  holds a surrogate, and gives \<^verbatim>\<open>None\<close> otherwise.
\<close>

theorem signup_token_roundtrip:
  assumes key: "signing_key self = Some key"
    and kenc: "\<not> list_ex is_surrogate key"
    and u: "58 \<notin> set username"
    and t0: "\<bar>t0\<bar> < 2 ^ 1024"
  shows "if list_ex is_surrogate username
     then get_signup_token self t0 username = Inl UnicodeEncodeError
     else (\<exists>msg sg. hmac self username t0 = Inr (msg, sg)
       \<and> get_signup_token self t0 username = Inr (msg @ str_of '':'' @ sg)
       \<and> validate_signup_token self now (msg @ str_of '':'' @ sg) =
           (if real_of_int (int_of_float t0 + token_expiration self) < now then Inr None
            else Inr (Some username))
       \<and> (\<forall>sg'. length sg' = length sg \<and> sg' \<noteq> sg \<and> \<not> list_ex is_surrogate sg' \<longrightarrow>
             validate_signup_token self now (msg @ str_of '':'' @ sg') = Inr None)
       \<and> (\<forall>sg'. length sg' = length sg \<and> sg' \<noteq> sg \<longrightarrow>
             validate_signup_token self now (msg @ str_of '':'' @ sg') =
               (if real_of_int (int_of_float t0 + token_expiration self) < now then Inr None
                else if list_ex is_surrogate (last (split 58 sg')) then Inl UnicodeEncodeError
                else Inr None)))"
proof (cases "list_ex is_surrogate username")
  case True
  have "hmac self username t0 = Inl UnicodeEncodeError"
    using key True float_digits[OF t0] by (rule hmac_surrogate)
  then show ?thesis using True by (simp add: get_signup_token_def)
next
  case False
  let ?i = "int_of_float t0"
  let ?msg = "username @ 58 # show_int ?i"
  let ?sg = "hexdigest (hmac_sha256 self (concat (map utf8_bytes key)) (concat (map utf8_bytes ?msg)))"
  let ?expired = "real_of_int (?i + token_expiration self) < now"
  have d: "length (show_nat (nat \<bar>?i\<bar>)) \<le> max_str_digits" using t0 by (rule float_digits)
  have h: "hmac self username t0 = Inr (?msg, ?sg)" using key kenc False d by (rule hmac_Some)
  have g: "get_signup_token self t0 username = Inr (?msg @ str_of '':'' @ ?sg)"
    by (simp add: get_signup_token_def h)
  have nc: "58 \<notin> set ?sg" using hexdigest_facts[of 58] by blast
  have t: "validate_signup_token self now (?msg @ str_of '':'' @ s) =
     (if ?expired then Inr None
      else if list_ex is_surrogate (last (split 58 s)) then Inl UnicodeEncodeError
      else if last (split 58 s) \<noteq> ?sg then Inr None
      else Inr (Some username))" for s
    using validate_token[OF key kenc u False d, of now s] by (simp add: str_of_colon)
  have v: "validate_signup_token self now (?msg @ str_of '':'' @ ?sg) =
         (if ?expired then Inr None else Inr (Some username))"
    using t[of ?sg] nc by (simp add: split_no_sep no_surrogate_hexdigest)
  have ne: "last (split 58 s) \<noteq> ?sg" if "length s = length ?sg" "s \<noteq> ?sg" for s
  proof (cases "58 \<in> set s")
    case True
    then have "length (last (split 58 s)) < length s" by (rule length_last_split_less)
    with that(1) show ?thesis by auto
  next
    case False
    with that(2) show ?thesis by (simp add: split_no_sep)
  qed
  have a: "validate_signup_token self now (?msg @ str_of '':'' @ s) =
       (if ?expired then Inr None
        else if list_ex is_surrogate (last (split 58 s)) then Inl UnicodeEncodeError
        else Inr None)"
    if "length s = length ?sg" "s \<noteq> ?sg" for s
    using t[of s] ne[OF that] by simp
  have b: "validate_signup_token self now (?msg @ str_of '':'' @ s) = Inr None"
    if "length s = length ?sg" "s \<noteq> ?sg" "\<not> list_ex is_surrogate s" for s
  proof -
    have "\<not> list_ex is_surrogate (last (split 58 s))"
      using that(3) set_last_split[of 58 s] by (auto simp: list_ex_iff)
    then show ?thesis using a[OF that(1,2)] by simp
  qed
  from False h g v a b show ?thesis by (simp only: if_False) blast
qed

text \<open>
  A token for bob issued at 1000.5 with the window of one week: accepted at 2000 and at
  the last second of the window, refused one second later, and refused with the first
  character of the signature changed to another digit; with that character changed to
  the surrogate \<open>0xD800\<close> the validation raises. No token is issued for a username that
  holds the surrogate.
\<close>

theorem signup_token_roundtrip_witness:
  "get_signup_token (example_backend\<lparr>signing_key := Some (str_of ''k'')\<rparr>) 1000.5 (str_of ''bob'')
       = Inr (str_of ''bob:1000:09'')
   \<and> validate_signup_token (example_backend\<lparr>signing_key := Some (str_of ''k'')\<rparr>) 2000
       (str_of ''bob:1000:09'') = Inr (Some (str_of ''bob''))
   \<and> validate_signup_token (example_backend\<lparr>signing_key := Some (str_of ''k'')\<rparr>) 605800
       (str_of ''bob:1000:09'') = Inr (Some (str_of ''bob''))
   \<and> validate_signup_token (example_backend\<lparr>signing_key := Some (str_of ''k'')\<rparr>) 605801
       (str_of ''bob:1000:09'') = Inr None
   \<and> validate_signup_token (example_backend\<lparr>signing_key := Some (str_of ''k'')\<rparr>) 2000
       (str_of ''bob:1000:19'') = Inr None
   \<and> validate_signup_token (example_backend\<lparr>signing_key := Some (str_of ''k'')\<rparr>) 2000
       (str_of ''bob:1000:'' @ [0xD800, 57]) = Inl UnicodeEncodeError
   \<and> get_signup_token (example_backend\<lparr>signing_key := Some (str_of ''k'')\<rparr>) 1000.5
       (str_of ''bob'' @ [0xD800]) = Inl UnicodeEncodeError"
proof -
  let ?b = "example_backend\<lparr>signing_key := Some (str_of ''k'')\<rparr>"
  have k: "signing_key ?b = Some (str_of ''k'')" by simp
  have ke: "\<not> list_ex is_surrogate (str_of ''k'')" by (simp add: str_of_def is_surrogate_def)
  have u: "58 \<notin> set (str_of ''bob'')" by (simp add: str_of_def)
  have ue: "\<not> list_ex is_surrogate (str_of ''bob'')" by (simp add: str_of_def is_surrogate_def)
  have u': "58 \<notin> set (str_of ''bob'' @ [0xD800])" by (simp add: str_of_def)
  have ue': "list_ex is_surrogate (str_of ''bob'' @ [0xD800])" by (simp add: is_surrogate_def)
  have f: "\<bar>1000.5 :: real\<bar> < 2 ^ 1024"
  proof -
    have "\<bar>1000.5 :: real\<bar> < 2 ^ 10" by simp
    also have "(2::real) ^ 10 \<le> 2 ^ 1024" by (rule power_increasing) simp_all
    finally show ?thesis .
  qed
  have h: "hmac ?b (str_of ''bob'') 1000.5 = Inr (str_of ''bob:1000'', str_of ''09'')"
    by (simp add: token_simps)
  have e: "token_expiration ?b = 604800" "int_of_float 1000.5 = 1000"
    by (simp_all add: token_simps)
  have c: "str_of ''bob:1000'' @ str_of '':'' @ str_of ''09'' = str_of ''bob:1000:09''"
    "str_of ''bob:1000'' @ str_of '':'' @ str_of ''19'' = str_of ''bob:1000:19''"
    "str_of ''bob:1000'' @ str_of '':'' @ [0xD800, 57] = str_of ''bob:1000:'' @ [0xD800, 57]"
    by (simp_all add: str_of_def)
  note r = signup_token_roundtrip[OF k ke u f]
  have t: "get_signup_token ?b 1000.5 (str_of ''bob'') = Inr (str_of ''bob:1000:09'')"
    using r[of 2000] ue h c by auto
  have 1: "validate_signup_token ?b 2000 (str_of ''bob:1000:09'') = Inr (Some (str_of ''bob''))"
    using r[of 2000] ue h e c by auto
  have 2: "validate_signup_token ?b 605800 (str_of ''bob:1000:09'') = Inr (Some (str_of ''bob''))"
    using r[of 605800] ue h e c by auto
  have 3: "validate_signup_token ?b 605801 (str_of ''bob:1000:09'') = Inr None"
    using r[of 605801] ue h e c by auto
  have 4: "validate_signup_token ?b 2000 (str_of ''bob:1000:19'') = Inr None"
  proof -
    from r[of 2000] ue h
    have "\<forall>sg'. length sg' = length (str_of ''09'') \<and> sg' \<noteq> str_of ''09''
            \<and> \<not> list_ex is_surrogate sg' \<longrightarrow>
            validate_signup_token ?b 2000 (str_of ''bob:1000'' @ str_of '':'' @ sg') = Inr None"
      by auto
    from this[rule_format, of "str_of ''19''"] c show ?thesis
      by (simp add: str_of_def is_surrogate_def)
  qed
  have 5: "validate_signup_token ?b 2000 (str_of ''bob:1000:'' @ [0xD800, 57]) = Inl UnicodeEncodeError"
  proof -
    from r[of 2000] ue h e
    have "\<forall>sg'. length sg' = length (str_of ''09'') \<and> sg' \<noteq> str_of ''09'' \<longrightarrow>
            validate_signup_token ?b 2000 (str_of ''bob:1000'' @ str_of '':'' @ sg') =
              (if list_ex is_surrogate (last (split 58 sg')) then Inl UnicodeEncodeError
               else Inr None)"
      by auto
    from this[rule_format, of "[0xD800, 57]"] c show ?thesis
      by (simp add: str_of_def is_surrogate_def)
  qed
  have 6: "get_signup_token ?b 1000.5 (str_of ''bob'' @ [0xD800]) = Inl UnicodeEncodeError"
    using signup_token_roundtrip[OF k ke u' f, of 2000] ue' by simp
  from t 1 2 3 4 5 6 show ?thesis by simp
qed

text \<open>
  The claim as stated covers every username and every altered signature. The token for
  \<^verbatim>\<open>a:b\<close> splits into four pieces, the validation takes \<^verbatim>\<open>a\<close> for the username and \<^verbatim>\<open>b\<close>
  for the issue time, and \<^verbatim>\<open>int("b")\<close> raises. The token of bob with the first character
  of its signature altered to the surrogate \<open>0xD800\<close> raises at
  \<^verbatim>\<open>signature.encode("utf-8")\<close>.
\<close>

theorem signup_token_colon_username:
  "get_signup_token (example_backend\<lparr>signing_key := Some (str_of ''k'')\<rparr>) 1000 (str_of ''a:b'')
       = Inr (str_of ''a:b:1000:09'')
   \<and> validate_signup_token (example_backend\<lparr>signing_key := Some (str_of ''k'')\<rparr>) 1000
       (str_of ''a:b:1000:09'') = Inl ValueError
   \<and> get_signup_token (example_backend\<lparr>signing_key := Some (str_of ''k'')\<rparr>) 1000 (str_of ''bob'')
       = Inr (str_of ''bob:1000:09'')
   \<and> validate_signup_token (example_backend\<lparr>signing_key := Some (str_of ''k'')\<rparr>) 1000
       (str_of ''bob:1000:'' @ [0xD800, 57]) = Inl UnicodeEncodeError"
  by (simp add: token_simps)

text \<open>
  Claim C4 says that \<open>validate_signup_token\<close> raises on no input. It holds for expired
  tokens and for signature mismatches (claim C3), and it fails for malformed tokens: a
  token with no colon, and the empty token, raise \<^verbatim>\<open>IndexError\<close> at \<^verbatim>\<open>pieces[0]\<close>, and a
  token whose second piece is no number raises \<^verbatim>\<open>ValueError\<close> at \<^verbatim>\<open>int\<close>.
\<close>

theorem validate_signup_token_raises:
  "validate_signup_token (example_backend\<lparr>signing_key := Some (str_of ''k'')\<rparr>) 1000 (str_of ''abc'')
       = Inl IndexError
   \<and> validate_signup_token (example_backend\<lparr>signing_key := Some (str_of ''k'')\<rparr>) 1000
       (str_of ''a:b:c'') = Inl ValueError
   \<and> validate_signup_token (example_backend\<lparr>signing_key := Some (str_of ''k'')\<rparr>) 1000 []
       = Inl IndexError"
  by (simp add: token_simps)

subsection \<open>\<open>load\<close> only adds\<close>

lemma store_le_refl: "store_le st st"
  by (simp add: store_le_def)

lemma store_le_trans: "store_le a b \<Longrightarrow> store_le b c \<Longrightarrow> store_le a c"
  unfolding store_le_def by (meson subset_trans)

lemma fold_store_le:
  assumes "\<And>x s. store_le s (f x s)"
  shows "store_le st (fold f xs st)"
proof (induction xs arbitrary: st)
  case Nil
  show ?case by (simp add: store_le_refl)
next
  case (Cons x xs)
  have "store_le st (f x st)" by (rule assms)
  moreover have "store_le (f x st) (fold f xs (f x st))" by (rule Cons.IH)
  ultimately show ?case by (simp add: store_le_trans)
qed

lemma store_le_users:
  "st_groups st' = st_groups st \<Longrightarrow> st_user_grants st' = st_user_grants st \<Longrightarrow>
   st_group_grants st' = st_group_grants st \<Longrightarrow> store_le st st'"
  by (simp add: store_le_def)

lemma store_le_register: "store_le st (store_register u p st)"
  by (rule store_le_users) (simp_all add: store_register_def)

lemma store_le_approve_user: "store_le st (store_approve_user u st)"
  by (rule store_le_users) (simp_all add: store_approve_user_def)

lemma store_le_set_user_admin: "store_le st (store_set_user_admin u a st)"
  by (rule store_le_users) (simp_all add: store_set_user_admin_def)

lemma store_le_set_allow_register: "store_le st (store_set_allow_register a st)"
  by (rule store_le_users) (simp_all add: store_set_allow_register_def)

lemma map_of_append_new:
  "k \<notin> fst ` set xs \<Longrightarrow> map_of (xs @ [(k, v)]) k' = (if k' = k then Some v else map_of xs k')"
  by (induction xs) auto

lemma map_of_edit_entry:
  "map_of (map (\<lambda>(name, v). if name = k then (name, f v) else (name, v)) xs) k' =
     (if k' = k then map_option f (map_of xs k') else map_of xs k')"
  by (induction xs) auto

lemma keys_edit_entry:
  "fst ` set (map (\<lambda>(name, v). if name = k then (name, f v) else (name, v)) xs) = fst ` set xs"
  by (induction xs) auto

lemma store_le_create_group: "store_le st (store_create_group g st)"
  by (auto simp: store_le_def store_create_group_def map_of_append_new)

lemma set_edit_member_add: "set members \<subseteq> set (edit_member u True members)"
  by (auto simp: edit_member_def)

lemma store_le_edit_user_group: "store_le st (store_edit_user_group u g True st)"
  using set_edit_member_add
  by (auto simp: store_le_def store_edit_user_group_def map_of_edit_entry)

lemma dict_get_dict_set: "dict_get (dict_set k v d) k' = (if k' = k then v else dict_get d k')"
  by (simp add: dict_get_def map_of_dict_set)

lemma dict_get_edit_grant_add:
  "set (dict_get d w) \<subseteq> set (dict_get (edit_grant who perm True d) w)"
proof (cases "map_of d who")
  case None
  then have g: "dict_get d who = []" by (simp add: dict_get_def)
  have e: "edit_grant who perm True d = dict_set who [perm] d"
    by (simp add: edit_grant_def None)
  show ?thesis by (simp add: e dict_get_dict_set g)
next
  case (Some perms)
  then have g: "dict_get d who = perms" by (simp add: dict_get_def)
  have e: "edit_grant who perm True d = (if perm \<in> set perms then d else dict_set who (perms @ [perm]) d)"
    by (simp add: edit_grant_def Some)
  show ?thesis by (auto simp: e dict_get_dict_set g)
qed

lemma store_le_edit_group_permission: "store_le st (store_edit_group_permission p g x True st)"
  using dict_get_edit_grant_add
  by (auto simp: store_le_def store_edit_group_permission_def)

lemma store_le_edit_user_permission: "store_le st (store_edit_user_permission p u x True st)"
  using dict_get_edit_grant_add
  by (auto simp: store_le_def store_edit_user_permission_def)

lemma store_backend_sel:
  "pending_users (store_backend v d) = store_pending_users"
  "user_data (store_backend v d) = store_user_data"
  "group_members (store_backend v d) = store_group_members"
  "register (store_backend v d) = store_register"
  "approve_user (store_backend v d) = store_approve_user"
  "set_user_admin (store_backend v d) = store_set_user_admin"
  "create_group (store_backend v d) = store_create_group"
  "edit_user_group (store_backend v d) = store_edit_user_group"
  "edit_group_permission (store_backend v d) = store_edit_group_permission"
  "edit_user_permission (store_backend v d) = store_edit_user_permission"
  "set_allow_register (store_backend v d) = store_set_allow_register"
  "user_permissions (store_backend v d) = st_user_grants"
  "group_permissions (store_backend v d) = st_group_grants"
  by (simp_all add: store_backend_def)

lemma load_user_store:
  "load_user (store_backend v d) pending (u, p, a) st =
     store_set_user_admin u a
       (if \<not> user_exists (store_backend v d) pending st u
        then store_approve_user u (store_register u p st) else st)"
  by (simp add: load_user_def Let_def store_backend_sel split del: if_split cong: if_cong)

lemma load_group_store:
  "load_group (store_backend v d) (g, ms) st =
     fold (\<lambda>member. store_edit_user_group member g True)
       (filter (\<lambda>member. member \<notin> set (store_group_members
            (if store_group_members st g = [] then store_create_group g st else st) g))
          (remdups ms))
       (if store_group_members st g = [] then store_create_group g st else st)"
  by (simp add: load_group_def Let_def store_backend_sel split del: if_split cong: if_cong)

lemma store_le_load_user: "store_le st (load_user (store_backend v d) pending user st)"
proof -
  obtain u p a where user: "user = (u, p, a)" by (cases user)
  let ?s1 = "if \<not> user_exists (store_backend v d) pending st u
       then store_approve_user u (store_register u p st) else st"
  have "store_le st (store_approve_user u (store_register u p st))"
    by (rule store_le_trans[OF store_le_register store_le_approve_user])
  then have A: "store_le st ?s1"
    by (simp add: store_le_refl)
  have B: "store_le ?s1 (store_set_user_admin u a ?s1)"
    by (rule store_le_set_user_admin)
  show ?thesis
    unfolding user load_user_store by (rule store_le_trans[OF A B])
qed

lemma store_le_load_group: "store_le st (load_group (store_backend v d) entry st)"
proof -
  obtain g ms where entry: "entry = (g, ms)" by (cases entry)
  let ?s1 = "if store_group_members st g = [] then store_create_group g st else st"
  have 1: "store_le st ?s1" by (simp add: store_le_refl store_le_create_group)
  have 2: "store_le ?s1 (fold (\<lambda>member. store_edit_user_group member g True) xs ?s1)" for xs
    by (rule fold_store_le) (rule store_le_edit_user_group)
  show ?thesis
    unfolding entry load_group_store by (rule store_le_trans[OF 1 2])
qed

lemma store_le_load_pending_user:
  "store_le st (load_pending_user (store_backend v d) pending user st)"
  by (cases user) (simp add: load_pending_user_def store_backend_sel store_le_refl store_le_register)

lemma store_le_load_group_permissions:
  "store_le st (load_group_permissions (store_backend v d) entry st)"
proof -
  obtain package grps where entry: "entry = (package, grps)" by (cases entry)
  have "store_le s (fold (\<lambda>perm. store_edit_group_permission package g perm True) perms s)" for s g perms
    by (rule fold_store_le) (rule store_le_edit_group_permission)
  then have "store_le st (fold (\<lambda>(g, perms). fold (\<lambda>perm. store_edit_group_permission package g perm True) perms) grps st)"
    by (intro fold_store_le) (simp add: split_beta)
  then show ?thesis by (simp add: entry load_group_permissions_def store_backend_sel)
qed

lemma store_le_load_user_permissions:
  "store_le st (load_user_permissions (store_backend v d) entry st)"
proof -
  obtain package users where entry: "entry = (package, users)" by (cases entry)
  have "store_le s (fold (\<lambda>perm. store_edit_user_permission package u perm True) perms s)" for s u perms
    by (rule fold_store_le) (rule store_le_edit_user_permission)
  then have "store_le st (fold (\<lambda>(u, perms). fold (\<lambda>perm. store_edit_user_permission package u perm True) perms) users st)"
    by (intro fold_store_le) (simp add: split_beta)
  then show ?thesis by (simp add: entry load_user_permissions_def store_backend_sel)
qed

lemma load_unfold:
  "load self data s =
     set_allow_register self (snap_allow_register data)
       (fold (load_user_permissions self) (snap_package_users data)
         (fold (load_group_permissions self) (snap_package_groups data)
           (fold (load_pending_user self (set (pending_users self s))) (snap_pending_users data)
             (fold (load_group self) (snap_groups data)
               (fold (load_user self (set (pending_users self s))) (snap_users data) s)))))"
  by (simp add: load_def Let_def)

lemma store_le_load: "store_le st (load (store_backend v d) data st)"
proof -
  let ?B = "store_backend v d"
  let ?P = "set (pending_users ?B st)"
  let ?s1 = "fold (load_user ?B ?P) (snap_users data) st"
  let ?s2 = "fold (load_group ?B) (snap_groups data) ?s1"
  let ?s3 = "fold (load_pending_user ?B ?P) (snap_pending_users data) ?s2"
  let ?s4 = "fold (load_group_permissions ?B) (snap_package_groups data) ?s3"
  let ?s5 = "fold (load_user_permissions ?B) (snap_package_users data) ?s4"
  have 1: "store_le st ?s1" by (rule fold_store_le) (rule store_le_load_user)
  have 2: "store_le ?s1 ?s2" by (rule fold_store_le) (rule store_le_load_group)
  have 3: "store_le ?s2 ?s3" by (rule fold_store_le) (rule store_le_load_pending_user)
  have 4: "store_le ?s3 ?s4" by (rule fold_store_le) (rule store_le_load_group_permissions)
  have 5: "store_le ?s4 ?s5" by (rule fold_store_le) (rule store_le_load_user_permissions)
  have 6: "store_le ?s5 (store_set_allow_register (snap_allow_register data) ?s5)"
    by (rule store_le_set_allow_register)
  have "load ?B data st = store_set_allow_register (snap_allow_register data) ?s5"
    by (simp add: load_unfold) (simp add: store_backend_sel)
  then show ?thesis
    using store_le_trans[OF 1 store_le_trans[OF 2 store_le_trans[OF 3 store_le_trans[OF 4 store_le_trans[OF 5 6]]]]]
    by simp
qed

lemma key_of_lookup: "map_of xs k = Some v \<Longrightarrow> k \<in> fst ` set xs"
  by (drule map_of_SomeD) (rule image_eqI[where x="(k, v)"], simp_all)

lemma lookup_of_key: "k \<in> fst ` set xs \<Longrightarrow> \<exists>v. map_of xs k = Some v"
  by (cases "map_of xs k") (simp_all add: map_of_eq_None_iff)

lemma store_le_keys:
  assumes "store_le a b" and "g \<in> fst ` set (st_groups a)"
  shows "g \<in> fst ` set (st_groups b)"
proof -
  from assms(2) obtain ms where "map_of (st_groups a) g = Some ms"
    using lookup_of_key by fastforce
  with assms(1) obtain ms' where "map_of (st_groups b) g = Some ms'"
    unfolding store_le_def by blast
  then show ?thesis by (rule key_of_lookup)
qed

lemma store_le_members:
  assumes "store_le a b" and "m \<in> set (store_group_members a g)"
  shows "m \<in> set (store_group_members b g)"
proof (cases "map_of (st_groups a) g")
  case None
  with assms(2) show ?thesis by (simp add: store_group_members_def)
next
  case (Some ms)
  with assms(2) have m: "m \<in> set ms" by (simp add: store_group_members_def)
  from Some assms(1) obtain ms' where ms': "map_of (st_groups b) g = Some ms'" "set ms \<subseteq> set ms'"
    unfolding store_le_def by blast
  with m show ?thesis by (auto simp: store_group_members_def)
qed

lemma fold_keeps:
  assumes "\<And>x s. x \<in> set xs \<Longrightarrow> P (f x s) = P s"
  shows "P (fold f xs st) = P st"
  using assms by (induction xs arbitrary: st) simp_all

lemma groups_load_user: "st_groups (load_user (store_backend v d) pending user st) = st_groups st"
  by (cases user)
     (simp add: load_user_store store_set_user_admin_def store_approve_user_def store_register_def)

lemma groups_load_pending_user:
  "st_groups (load_pending_user (store_backend v d) pending user st) = st_groups st"
  by (cases user) (simp add: load_pending_user_def store_backend_sel store_register_def)

lemma groups_load_group_permissions:
  "st_groups (load_group_permissions (store_backend v d) entry st) = st_groups st"
proof -
  obtain package grps where entry: "entry = (package, grps)" by (cases entry)
  have 1: "st_groups (fold (\<lambda>perm. store_edit_group_permission package g perm True) perms s) = st_groups s"
    for g perms s
    by (rule fold_keeps) (simp add: store_edit_group_permission_def)
  have "st_groups (fold (\<lambda>(g, perms). fold (\<lambda>perm. store_edit_group_permission package g perm True) perms) grps st)
      = st_groups st"
    by (rule fold_keeps) (simp add: split_beta 1)
  then show ?thesis by (simp add: entry load_group_permissions_def store_backend_sel)
qed

lemma groups_load_user_permissions:
  "st_groups (load_user_permissions (store_backend v d) entry st) = st_groups st"
proof -
  obtain package users where entry: "entry = (package, users)" by (cases entry)
  have 1: "st_groups (fold (\<lambda>perm. store_edit_user_permission package u perm True) perms s) = st_groups s"
    for u perms s
    by (rule fold_keeps) (simp add: store_edit_user_permission_def)
  have "st_groups (fold (\<lambda>(u, perms). fold (\<lambda>perm. store_edit_user_permission package u perm True) perms) users st)
      = st_groups st"
    by (rule fold_keeps) (simp add: split_beta 1)
  then show ?thesis by (simp add: entry load_user_permissions_def store_backend_sel)
qed

lemma other_group_create_group:
  "g \<noteq> g' \<Longrightarrow> map_of (st_groups (store_create_group g' st)) g = map_of (st_groups st) g"
  by (auto simp: store_create_group_def map_add_def split: option.splits)

lemma other_group_edit_user_group:
  "g \<noteq> g' \<Longrightarrow> map_of (st_groups (store_edit_user_group u g' a st)) g = map_of (st_groups st) g"
  by (simp add: store_edit_user_group_def map_of_edit_entry)

lemma other_group_load_group:
  assumes "g \<noteq> fst entry"
  shows "map_of (st_groups (load_group (store_backend v d) entry st)) g = map_of (st_groups st) g"
proof -
  obtain g' ms where entry: "entry = (g', ms)" by (cases entry)
  with assms have ne: "g \<noteq> g'" by simp
  let ?s1 = "if store_group_members st g' = [] then store_create_group g' st else st"
  have 1: "map_of (st_groups ?s1) g = map_of (st_groups st) g"
    using ne by (simp add: other_group_create_group)
  have 2: "map_of (st_groups (fold (\<lambda>member. store_edit_user_group member g' True) xs s)) g
        = map_of (st_groups s) g" for xs s
    by (rule fold_keeps[where P="\<lambda>s. map_of (st_groups s) g"]) (simp add: other_group_edit_user_group ne)
  show ?thesis unfolding entry load_group_store by (simp only: 2 1)
qed

lemma undeclared_group_fold_load_group:
  "g \<notin> fst ` set entries \<Longrightarrow>
   map_of (st_groups (fold (load_group (store_backend v d)) entries st)) g = map_of (st_groups st) g"
proof (rule fold_keeps[where P="\<lambda>s. map_of (st_groups s) g"])
  fix e s
  assume g: "g \<notin> fst ` set entries" and e: "e \<in> set entries"
  then have "g \<noteq> fst e" by (metis imageI)
  then show "map_of (st_groups (load_group (store_backend v d) e s)) g = map_of (st_groups s) g"
    by (rule other_group_load_group)
qed

lemma keys_create_group: "g \<in> fst ` set (st_groups (store_create_group g st))"
  by (simp add: store_create_group_def)

lemma keys_edit_entry_image:
  "fst ` (\<lambda>(name, v). if name = k then (name, f v) else (name, v)) ` S = fst ` S"
proof -
  have "fst \<circ> (\<lambda>(name, v). if name = k then (name, f v) else (name, v)) = fst"
    by (auto simp: fun_eq_iff)
  then show ?thesis by (simp add: image_comp)
qed

lemma keys_edit_user_group:
  "fst ` set (st_groups (store_edit_user_group u g a st)) = fst ` set (st_groups st)"
  by (simp add: store_edit_user_group_def keys_edit_entry_image)

lemma declared_group_load_group:
  "g \<in> fst ` set (st_groups (load_group (store_backend v d) (g, ms) st))"
proof -
  let ?s1 = "if store_group_members st g = [] then store_create_group g st else st"
  have 1: "g \<in> fst ` set (st_groups ?s1)"
  proof (cases "store_group_members st g = []")
    case True
    then show ?thesis by (simp add: keys_create_group)
  next
    case False
    then obtain ms' where "map_of (st_groups st) g = Some ms'"
      by (cases "map_of (st_groups st) g") (simp_all add: store_group_members_def)
    then have "g \<in> fst ` set (st_groups st)" by (rule key_of_lookup)
    then show ?thesis using False by simp
  qed
  have 2: "fst ` set (st_groups (fold (\<lambda>member. store_edit_user_group member g True) xs s))
        = fst ` set (st_groups s)" for xs s
    by (rule fold_keeps[where P="\<lambda>s. fst ` set (st_groups s)"]) (simp add: keys_edit_user_group)
  show ?thesis unfolding load_group_store by (simp only: 2 1)
qed

lemma declared_group_fold_load_group:
  "g \<in> fst ` set entries \<Longrightarrow>
   g \<in> fst ` set (st_groups (fold (load_group (store_backend v d)) entries st))"
proof (induction entries arbitrary: st)
  case Nil
  then show ?case by simp
next
  case (Cons e es)
  let ?B = "store_backend v d"
  show ?case
  proof (cases "g = fst e")
    case True
    then have "g \<in> fst ` set (st_groups (load_group ?B e st))"
      using declared_group_load_group[of g v d "snd e" st] by simp
    moreover have "store_le (load_group ?B e st) (fold (load_group ?B) es (load_group ?B e st))"
      by (rule fold_store_le) (rule store_le_load_group)
    ultimately show ?thesis by (simp add: store_le_keys)
  next
    case False
    with Cons.prems have "g \<in> fst ` set es" by auto
    from Cons.IH[OF this] show ?thesis by simp
  qed
qed

lemma load_store:
  "load (store_backend v d) data st =
     store_set_allow_register (snap_allow_register data)
       (fold (load_user_permissions (store_backend v d)) (snap_package_users data)
         (fold (load_group_permissions (store_backend v d)) (snap_package_groups data)
           (fold (load_pending_user (store_backend v d) (set (store_pending_users st)))
              (snap_pending_users data)
             (fold (load_group (store_backend v d)) (snap_groups data)
               (fold (load_user (store_backend v d) (set (store_pending_users st)))
                  (snap_users data) st)))))"
  by (simp add: load_unfold store_backend_sel)

lemma groups_load:
  "st_groups (load (store_backend v d) data st) =
     st_groups (fold (load_group (store_backend v d)) (snap_groups data)
        (fold (load_user (store_backend v d) (set (store_pending_users st))) (snap_users data) st))"
proof -
  have a: "st_groups (store_set_allow_register x s) = st_groups s" for x s
    by (simp add: store_set_allow_register_def)
  have b: "st_groups (fold (load_user_permissions (store_backend v d)) xs s) = st_groups s" for xs s
    by (rule fold_keeps) (rule groups_load_user_permissions)
  have c: "st_groups (fold (load_group_permissions (store_backend v d)) xs s) = st_groups s" for xs s
    by (rule fold_keeps) (rule groups_load_group_permissions)
  have e: "st_groups (fold (load_pending_user (store_backend v d) P) xs s) = st_groups s" for xs s P
    by (rule fold_keeps) (rule groups_load_pending_user)
  show ?thesis by (simp only: load_store a b c e)
qed

lemma groups_fold_load_user:
  "st_groups (fold (load_user (store_backend v d) P) xs st) = st_groups st"
  by (rule fold_keeps) (rule groups_load_user)

lemma load_frame:
  "(perm \<in> set (dict_get (user_permissions (store_backend v d) st package) who) \<longrightarrow>
      perm \<in> set (dict_get (user_permissions (store_backend v d)
                      (load (store_backend v d) data st) package) who))
   \<and> (perm \<in> set (dict_get (group_permissions (store_backend v d) st package) who) \<longrightarrow>
      perm \<in> set (dict_get (group_permissions (store_backend v d)
                      (load (store_backend v d) data st) package) who))
   \<and> (member \<in> set (group_members (store_backend v d) st grp) \<longrightarrow>
      member \<in> set (group_members (store_backend v d) (load (store_backend v d) data st) grp))
   \<and> (grp \<in> fst ` set (st_groups st) \<longrightarrow>
      grp \<in> fst ` set (st_groups (load (store_backend v d) data st)))
   \<and> (grp \<notin> fst ` set (snap_groups data) \<longrightarrow>
      map_of (st_groups (load (store_backend v d) data st)) grp = map_of (st_groups st) grp)
   \<and> (grp \<in> fst ` set (snap_groups data) \<longrightarrow>
      grp \<in> fst ` set (st_groups (load (store_backend v d) data st)))"
proof -
  let ?B = "store_backend v d"
  let ?st' = "load ?B data st"
  have le: "store_le st ?st'" by (rule store_le_load)
  have 1: "perm \<in> set (dict_get (st_user_grants st package) who) \<Longrightarrow>
      perm \<in> set (dict_get (st_user_grants ?st' package) who)"
    using le unfolding store_le_def by blast
  have 2: "perm \<in> set (dict_get (st_group_grants st package) who) \<Longrightarrow>
      perm \<in> set (dict_get (st_group_grants ?st' package) who)"
    using le unfolding store_le_def by blast
  have 3: "member \<in> set (store_group_members st grp) \<Longrightarrow> member \<in> set (store_group_members ?st' grp)"
    using le by (rule store_le_members)
  have 4: "grp \<in> fst ` set (st_groups st) \<Longrightarrow> grp \<in> fst ` set (st_groups ?st')"
    using le by (rule store_le_keys)
  have 5: "map_of (st_groups ?st') grp = map_of (st_groups st) grp"
    if "grp \<notin> fst ` set (snap_groups data)"
    using that by (simp add: groups_load undeclared_group_fold_load_group groups_fold_load_user)
  have 6: "grp \<in> fst ` set (st_groups ?st')" if "grp \<in> fst ` set (snap_groups data)"
    using that by (simp add: groups_load declared_group_fold_load_group)
  from 1 2 3 4 5 6 show ?thesis by (simp add: store_backend_sel)
qed


subsection \<open>The calls of \<open>load\<close>\<close>

lemma traced_sel:
  "pending_users (traced self) t = pending_users self (fst t)"
  "user_data (traced self) t = user_data self (fst t)"
  "group_members (traced self) t = group_members self (fst t)"
  "register (traced self) u p t = (register self u p (fst t), snd t @ [Register u p])"
  "approve_user (traced self) u t = (approve_user self u (fst t), snd t @ [ApproveUser u])"
  "set_user_admin (traced self) u a t = (set_user_admin self u a (fst t), snd t @ [SetUserAdmin u a])"
  "create_group (traced self) g t = (create_group self g (fst t), snd t @ [CreateGroup g])"
  "edit_user_group (traced self) u g a t =
     (edit_user_group self u g a (fst t), snd t @ [EditUserGroup u g a])"
  "edit_group_permission (traced self) p g x a t =
     (edit_group_permission self p g x a (fst t), snd t @ [EditGroupPermission p g x a])"
  "edit_user_permission (traced self) p u x a t =
     (edit_user_permission self p u x a (fst t), snd t @ [EditUserPermission p u x a])"
  "set_allow_register (traced self) a t =
     (set_allow_register self a (fst t), snd t @ [SetAllowRegister a])"
  by (simp_all add: traced_def)

lemma fold_fst:
  assumes "\<And>x t. fst (F x t) = f x (fst t)"
  shows "fst (fold F xs t) = fold f xs (fst t)"
  using assms by (induction xs arbitrary: t) simp_all

lemma user_exists_traced:
  "user_exists (traced self) pending t username = user_exists self pending (fst t) username"
  by (simp add: user_exists_def traced_sel)

lemma fst_load_user_traced:
  "fst (load_user (traced self) pending user t) = load_user self pending user (fst t)"
  by (cases user) (simp add: load_user_def user_exists_traced traced_sel Let_def)

lemma created_load_user_traced:
  "CreateGroup g \<in> set (snd (load_user (traced self) pending user t))
     \<longleftrightarrow> CreateGroup g \<in> set (snd t)"
  by (cases user) (simp add: load_user_def user_exists_traced traced_sel Let_def)

lemma fst_load_pending_user_traced:
  "fst (load_pending_user (traced self) pending user t) = load_pending_user self pending user (fst t)"
  by (cases user) (simp add: load_pending_user_def user_exists_traced traced_sel)

lemma created_load_pending_user_traced:
  "CreateGroup g \<in> set (snd (load_pending_user (traced self) pending user t))
     \<longleftrightarrow> CreateGroup g \<in> set (snd t)"
  by (cases user) (simp add: load_pending_user_def user_exists_traced traced_sel)

lemma fst_load_group_traced:
  "fst (load_group (traced self) entry t) = load_group self entry (fst t)"
proof -
  obtain g ms where entry: "entry = (g, ms)" by (cases entry)
  have 1: "fst (fold (\<lambda>member. edit_user_group (traced self) member g True) xs s)
      = fold (\<lambda>member. edit_user_group self member g True) xs (fst s)" for xs s
    by (rule fold_fst) (simp add: traced_sel)
  show ?thesis
    by (cases "group_members self (fst t) g = []")
       (simp_all add: entry load_group_def Let_def traced_sel 1)
qed

lemma created_load_group_traced:
  "CreateGroup g \<in> set (snd (load_group (traced self) entry t))
     \<longleftrightarrow> CreateGroup g \<in> set (snd t) \<or> (g = fst entry \<and> group_members self (fst t) g = [])"
proof -
  obtain g' ms where entry: "entry = (g', ms)" by (cases entry)
  have 1: "CreateGroup g \<in> set (snd (fold (\<lambda>member. edit_user_group (traced self) member g' True) xs s))
      \<longleftrightarrow> CreateGroup g \<in> set (snd s)" for xs s
    by (rule fold_keeps[where P="\<lambda>s. CreateGroup g \<in> set (snd s)"]) (simp add: traced_sel)
  show ?thesis
    by (cases "group_members self (fst t) g' = []")
       (auto simp: entry load_group_def Let_def traced_sel 1)
qed

lemma fst_load_group_permissions_traced:
  "fst (load_group_permissions (traced self) entry t) = load_group_permissions self entry (fst t)"
proof -
  obtain package grps where entry: "entry = (package, grps)" by (cases entry)
  have 1: "fst (fold (\<lambda>perm. edit_group_permission (traced self) package g perm True) perms s)
      = fold (\<lambda>perm. edit_group_permission self package g perm True) perms (fst s)" for g perms s
    by (rule fold_fst) (simp add: traced_sel)
  have "fst (fold (\<lambda>(g, perms). fold (\<lambda>perm. edit_group_permission (traced self) package g perm True) perms) grps t)
      = fold (\<lambda>(g, perms). fold (\<lambda>perm. edit_group_permission self package g perm True) perms) grps (fst t)"
    by (rule fold_fst) (simp add: split_beta 1)
  then show ?thesis by (simp add: entry load_group_permissions_def)
qed

lemma created_load_group_permissions_traced:
  "CreateGroup g \<in> set (snd (load_group_permissions (traced self) entry t))
     \<longleftrightarrow> CreateGroup g \<in> set (snd t)"
proof -
  obtain package grps where entry: "entry = (package, grps)" by (cases entry)
  have 1: "CreateGroup g \<in> set (snd (fold (\<lambda>perm. edit_group_permission (traced self) package g' perm True) perms s))
      \<longleftrightarrow> CreateGroup g \<in> set (snd s)" for g' perms s
    by (rule fold_keeps[where P="\<lambda>s. CreateGroup g \<in> set (snd s)"]) (simp add: traced_sel)
  have "CreateGroup g \<in> set (snd (fold (\<lambda>(g', perms). fold (\<lambda>perm. edit_group_permission (traced self) package g' perm True) perms) grps t))
      \<longleftrightarrow> CreateGroup g \<in> set (snd t)"
    by (rule fold_keeps[where P="\<lambda>s. CreateGroup g \<in> set (snd s)"]) (simp add: split_beta 1)
  then show ?thesis by (simp add: entry load_group_permissions_def)
qed

lemma fst_load_user_permissions_traced:
  "fst (load_user_permissions (traced self) entry t) = load_user_permissions self entry (fst t)"
proof -
  obtain package users where entry: "entry = (package, users)" by (cases entry)
  have 1: "fst (fold (\<lambda>perm. edit_user_permission (traced self) package u perm True) perms s)
      = fold (\<lambda>perm. edit_user_permission self package u perm True) perms (fst s)" for u perms s
    by (rule fold_fst) (simp add: traced_sel)
  have "fst (fold (\<lambda>(u, perms). fold (\<lambda>perm. edit_user_permission (traced self) package u perm True) perms) users t)
      = fold (\<lambda>(u, perms). fold (\<lambda>perm. edit_user_permission self package u perm True) perms) users (fst t)"
    by (rule fold_fst) (simp add: split_beta 1)
  then show ?thesis by (simp add: entry load_user_permissions_def)
qed

lemma created_load_user_permissions_traced:
  "CreateGroup g \<in> set (snd (load_user_permissions (traced self) entry t))
     \<longleftrightarrow> CreateGroup g \<in> set (snd t)"
proof -
  obtain package users where entry: "entry = (package, users)" by (cases entry)
  have 1: "CreateGroup g \<in> set (snd (fold (\<lambda>perm. edit_user_permission (traced self) package u perm True) perms s))
      \<longleftrightarrow> CreateGroup g \<in> set (snd s)" for u perms s
    by (rule fold_keeps[where P="\<lambda>s. CreateGroup g \<in> set (snd s)"]) (simp add: traced_sel)
  have "CreateGroup g \<in> set (snd (fold (\<lambda>(u, perms). fold (\<lambda>perm. edit_user_permission (traced self) package u perm True) perms) users t))
      \<longleftrightarrow> CreateGroup g \<in> set (snd t)"
    by (rule fold_keeps[where P="\<lambda>s. CreateGroup g \<in> set (snd s)"]) (simp add: split_beta 1)
  then show ?thesis by (simp add: entry load_user_permissions_def)
qed

text \<open>The recorded run passes through the states of the plain run.\<close>

lemma fst_load_traced: "fst (load (traced self) data t) = load self data (fst t)"
proof -
  let ?P = "set (pending_users self (fst t))"
  have 1: "fst (fold (load_user (traced self) ?P) xs s) = fold (load_user self ?P) xs (fst s)" for xs s
    by (rule fold_fst) (rule fst_load_user_traced)
  have 2: "fst (fold (load_group (traced self)) xs s) = fold (load_group self) xs (fst s)" for xs s
    by (rule fold_fst) (rule fst_load_group_traced)
  have 3: "fst (fold (load_pending_user (traced self) ?P) xs s)
      = fold (load_pending_user self ?P) xs (fst s)" for xs s
    by (rule fold_fst) (rule fst_load_pending_user_traced)
  have 4: "fst (fold (load_group_permissions (traced self)) xs s)
      = fold (load_group_permissions self) xs (fst s)" for xs s
    by (rule fold_fst) (rule fst_load_group_permissions_traced)
  have 5: "fst (fold (load_user_permissions (traced self)) xs s)
      = fold (load_user_permissions self) xs (fst s)" for xs s
    by (rule fold_fst) (rule fst_load_user_permissions_traced)
  show ?thesis by (simp add: load_def Let_def traced_sel 1 2 3 4 5)
qed

lemma created_load_traced:
  "CreateGroup g \<in> set (snd (load (traced self) data t)) \<longleftrightarrow>
   CreateGroup g \<in> set (snd (fold (load_group (traced self)) (snap_groups data)
      (fold (load_user (traced self) (set (pending_users self (fst t)))) (snap_users data) t)))"
proof -
  let ?P = "set (pending_users self (fst t))"
  have 3: "CreateGroup g \<in> set (snd (fold (load_pending_user (traced self) ?P) xs s))
      \<longleftrightarrow> CreateGroup g \<in> set (snd s)" for xs s
    by (rule fold_keeps[where P="\<lambda>s. CreateGroup g \<in> set (snd s)"])
       (rule created_load_pending_user_traced)
  have 4: "CreateGroup g \<in> set (snd (fold (load_group_permissions (traced self)) xs s))
      \<longleftrightarrow> CreateGroup g \<in> set (snd s)" for xs s
    by (rule fold_keeps[where P="\<lambda>s. CreateGroup g \<in> set (snd s)"])
       (rule created_load_group_permissions_traced)
  have 5: "CreateGroup g \<in> set (snd (fold (load_user_permissions (traced self)) xs s))
      \<longleftrightarrow> CreateGroup g \<in> set (snd s)" for xs s
    by (rule fold_keeps[where P="\<lambda>s. CreateGroup g \<in> set (snd s)"])
       (rule created_load_user_permissions_traced)
  show ?thesis by (simp add: load_def Let_def traced_sel 3 4 5)
qed

lemma created_fold_load_user_traced:
  "CreateGroup g \<in> set (snd (fold (load_user (traced self) P) xs t)) \<longleftrightarrow> CreateGroup g \<in> set (snd t)"
  by (rule fold_keeps[where P="\<lambda>s. CreateGroup g \<in> set (snd s)"]) (rule created_load_user_traced)

lemma no_members_iff: "store_group_members st g = [] \<longleftrightarrow> map_of (st_groups st) g \<in> {None, Some []}"
  by (auto simp: store_group_members_def split: option.splits)

lemma created_fold_load_group_traced:
  "CreateGroup g \<in> set (snd (fold (load_group (traced (store_backend v d))) entries t)) \<longleftrightarrow>
     CreateGroup g \<in> set (snd t) \<or> (g \<in> fst ` set entries \<and> store_group_members (fst t) g = [])"
proof (induction entries arbitrary: t)
  case Nil
  then show ?case by simp
next
  case (Cons e es)
  let ?B = "store_backend v d"
  let ?t1 = "load_group (traced ?B) e t"
  have f: "fst ?t1 = load_group ?B e (fst t)" by (rule fst_load_group_traced)
  have c: "CreateGroup g \<in> set (snd ?t1) \<longleftrightarrow>
      CreateGroup g \<in> set (snd t) \<or> (g = fst e \<and> store_group_members (fst t) g = [])"
    using created_load_group_traced[of g ?B e t] by (simp add: store_backend_sel)
  show ?case
  proof (cases "g = fst e")
    case True
    have le: "store_le (fst t) (fst ?t1)" unfolding f by (rule store_le_load_group)
    have "store_group_members (fst t) g = []" if "store_group_members (fst ?t1) g = []"
    proof (rule ccontr)
      assume "store_group_members (fst t) g \<noteq> []"
      then obtain m where "m \<in> set (store_group_members (fst t) g)"
        by (cases "store_group_members (fst t) g") auto
      with le have "m \<in> set (store_group_members (fst ?t1) g)" by (rule store_le_members)
      with that show False by simp
    qed
    then show ?thesis using True c Cons.IH[of ?t1] by auto
  next
    case False
    then have "map_of (st_groups (fst ?t1)) g = map_of (st_groups (fst t)) g"
      unfolding f by (rule other_group_load_group)
    then have "store_group_members (fst ?t1) g = store_group_members (fst t) g"
      by (simp add: store_group_members_def)
    then show ?thesis using False c Cons.IH[of ?t1] by auto
  qed
qed

lemma created_load_store:
  "CreateGroup g \<in> set (snd (load (traced (store_backend v d)) data (st, []))) \<longleftrightarrow>
     g \<in> fst ` set (snap_groups data) \<and> store_group_members st g = []"
proof -
  let ?B = "store_backend v d"
  let ?P = "set (pending_users ?B st)"
  let ?t1 = "fold (load_user (traced ?B) ?P) (snap_users data) (st, [])"
  have "fst ?t1 = fold (load_user ?B ?P) (snap_users data) st"
    using fold_fst[of "load_user (traced ?B) ?P" "load_user ?B ?P" "snap_users data" "(st, [])"]
    by (simp add: fst_load_user_traced)
  then have "st_groups (fst ?t1) = st_groups st" by (simp add: groups_fold_load_user)
  then have m: "store_group_members (fst ?t1) g = store_group_members st g"
    by (simp add: store_group_members_def)
  have n: "CreateGroup g \<notin> set (snd ?t1)" by (simp add: created_fold_load_user_traced)
  show ?thesis
    using created_load_traced[of g ?B data "(st, [])"] m n
    by (simp add: created_fold_load_group_traced)
qed

text \<open>
  Claim C5, as amended. Loading a dump never removes a grant or a membership of the store:
  a permission a user or a group holds on a package before the load is held after it, a
  member of a group stays a member, and a group of the store stays. A group the dump
  does not declare keeps exactly its members (the group \<^verbatim>\<open>qa\<close> with carol, when the
  dump declares \<^verbatim>\<open>dev\<close> with bob), and every declared group exists afterwards. Recording
  the calls changes no state, and \<open>create_group\<close> is called for a group exactly when the
  dump declares it and the store reports no member for it before the load: that is a
  group absent from the store, and also a group that exists and is empty.
\<close>

theorem load_only_adds:
  "(perm \<in> set (dict_get (user_permissions (store_backend v d) st package) who) \<longrightarrow>
      perm \<in> set (dict_get (user_permissions (store_backend v d)
                      (load (store_backend v d) data st) package) who))
   \<and> (perm \<in> set (dict_get (group_permissions (store_backend v d) st package) who) \<longrightarrow>
      perm \<in> set (dict_get (group_permissions (store_backend v d)
                      (load (store_backend v d) data st) package) who))
   \<and> (member \<in> set (group_members (store_backend v d) st grp) \<longrightarrow>
      member \<in> set (group_members (store_backend v d) (load (store_backend v d) data st) grp))
   \<and> (grp \<in> fst ` set (st_groups st) \<longrightarrow>
      grp \<in> fst ` set (st_groups (load (store_backend v d) data st)))
   \<and> (grp \<notin> fst ` set (snap_groups data) \<longrightarrow>
      map_of (st_groups (load (store_backend v d) data st)) grp = map_of (st_groups st) grp)
   \<and> (grp \<in> fst ` set (snap_groups data) \<longrightarrow>
      grp \<in> fst ` set (st_groups (load (store_backend v d) data st)))
   \<and> fst (load (traced (store_backend v d)) data (st, [])) = load (store_backend v d) data st
   \<and> (CreateGroup grp \<in> set (snd (load (traced (store_backend v d)) data (st, []))) \<longleftrightarrow>
        grp \<in> fst ` set (snap_groups data) \<and> group_members (store_backend v d) st grp = [])"
proof -
  have 1: "fst (load (traced (store_backend v d)) data (st, [])) = load (store_backend v d) data st"
    using fst_load_traced[of "store_backend v d" data "(st, [])"] by simp
  have 2: "CreateGroup grp \<in> set (snd (load (traced (store_backend v d)) data (st, []))) \<longleftrightarrow>
        grp \<in> fst ` set (snap_groups data) \<and> group_members (store_backend v d) st grp = []"
    by (simp add: created_load_store store_backend_sel)
  from load_frame[of perm v d st package who data member grp] 1 2 show ?thesis
    by blast
qed

text \<open>
  Loading the dump that declares bob, the groups \<^verbatim>\<open>dev\<close> and \<^verbatim>\<open>ops\<close> and two grants on
  \<^verbatim>\<open>foo\<close> into the example store: the grant of alice is kept, and so is a grant of the
  group \<^verbatim>\<open>qa\<close>; \<^verbatim>\<open>qa\<close> still has carol and nobody else, \<^verbatim>\<open>ops\<close> and \<^verbatim>\<open>dev\<close> exist, and
  \<open>create_group\<close> is called for \<^verbatim>\<open>dev\<close> and not for \<^verbatim>\<open>qa\<close>.
\<close>

theorem load_only_adds_witness:
  "''read'' \<in> set (dict_get (user_permissions example_backend
        (load example_backend example_dump example_store) ''foo'') ''alice'')
   \<and> ''read'' \<in> set (dict_get (group_permissions example_backend
        (load example_backend example_dump
           (example_store\<lparr>st_group_grants := (\<lambda>package. [(''qa'', [''read''])])\<rparr>)) ''foo'') ''qa'')
   \<and> ''carol'' \<in> set (group_members example_backend
        (load example_backend example_dump example_store) ''qa'')
   \<and> map_of (st_groups (load example_backend example_dump example_store)) ''qa'' = Some [''carol'']
   \<and> ''ops'' \<in> fst ` set (st_groups (load example_backend example_dump example_store))
   \<and> ''dev'' \<in> fst ` set (st_groups (load example_backend example_dump example_store))
   \<and> CreateGroup ''dev'' \<in> set (snd (load (traced example_backend) example_dump (example_store, [])))
   \<and> CreateGroup ''qa'' \<notin> set (snd (load (traced example_backend) example_dump (example_store, [])))"
proof -
  let ?g = "example_store\<lparr>st_group_grants := (\<lambda>package. [(''qa'', [''read''])])\<rparr>"
  have a: "''read'' \<in> set (dict_get (user_permissions example_backend example_store ''foo'') ''alice'')"
    by (simp add: store_simps dict_get_def)
  have b: "''read'' \<in> set (dict_get (group_permissions example_backend ?g ''foo'') ''qa'')"
    by (simp add: store_simps dict_get_def)
  have c: "''carol'' \<in> set (group_members example_backend example_store ''qa'')"
    by (simp add: store_simps)
  have e: "''qa'' \<notin> fst ` set (snap_groups example_dump)"
    "''dev'' \<in> fst ` set (snap_groups example_dump)"
    "''ops'' \<in> fst ` set (st_groups example_store)"
    "map_of (st_groups example_store) ''qa'' = Some [''carol'']"
    "group_members example_backend example_store ''dev'' = []"
    by (simp_all add: store_simps example_dump_def)
  have 1: "''read'' \<in> set (dict_get (user_permissions example_backend
        (load example_backend example_dump example_store) ''foo'') ''alice'')"
    using load_only_adds[of "''read''" example_verify example_digest example_store "''foo''" "''alice''"
        example_dump "''carol''" "''qa''"] a
    by (simp add: example_backend_def)
  have 2: "''read'' \<in> set (dict_get (group_permissions example_backend
        (load example_backend example_dump ?g) ''foo'') ''qa'')"
    using load_only_adds[of "''read''" example_verify example_digest ?g "''foo''" "''qa''"
        example_dump "''carol''" "''qa''"] b
    by (simp add: example_backend_def)
  have 3: "''carol'' \<in> set (group_members example_backend
        (load example_backend example_dump example_store) ''qa'')
     \<and> map_of (st_groups (load example_backend example_dump example_store)) ''qa'' = Some [''carol'']
     \<and> CreateGroup ''qa'' \<notin> set (snd (load (traced example_backend) example_dump (example_store, [])))"
    using load_only_adds[of "''read''" example_verify example_digest example_store "''foo''" "''alice''"
        example_dump "''carol''" "''qa''"] c e
    by (simp add: example_backend_def)
  have 4: "''ops'' \<in> fst ` set (st_groups (load example_backend example_dump example_store))"
    using load_only_adds[of "''read''" example_verify example_digest example_store "''foo''" "''alice''"
        example_dump "''carol''" "''ops''"] e
    by (simp add: example_backend_def)
  have 5: "''dev'' \<in> fst ` set (st_groups (load example_backend example_dump example_store))
     \<and> CreateGroup ''dev'' \<in> set (snd (load (traced example_backend) example_dump (example_store, [])))"
    using load_only_adds[of "''read''" example_verify example_digest example_store "''foo''" "''alice''"
        example_dump "''carol''" "''dev''"] e
    by (simp add: example_backend_def)
  from 1 2 3 4 5 show ?thesis by simp
qed

text \<open>
  The claim as stated has a declared group created only when the store lacks it. The test
  in \<open>load\<close> is \<^verbatim>\<open>if not self.group_members(group)\<close>: the example store holds the group
  \<^verbatim>\<open>ops\<close> with no member, the dump declares \<^verbatim>\<open>ops\<close>, and \<open>create_group\<close> is called
  for it.
\<close>

theorem load_creates_existing_group:
  "''ops'' \<in> fst ` set (st_groups example_store)
   \<and> group_members example_backend example_store ''ops'' = []
   \<and> CreateGroup ''ops'' \<in> set (snd (load (traced example_backend) example_dump (example_store, [])))"
proof -
  have 1: "''ops'' \<in> fst ` set (st_groups example_store)" by (simp add: example_store_def)
  have 2: "store_group_members example_store ''ops'' = []"
    by (simp add: example_store_def store_group_members_def)
  have 3: "''ops'' \<in> fst ` set (snap_groups example_dump)" by (simp add: example_dump_def)
  from 1 2 3 show ?thesis
    unfolding example_backend_def by (simp add: created_load_store store_backend_sel)
qed

subsection \<open>Loading a dump twice\<close>

text \<open>
  Claim C6 says that loading a dump twice leaves the state of loading it once, and the
  docstring of \<^verbatim>\<open>load\<close> says that it loads idempotently. It fails for a dump in which
  a user pending approval is a member of a group, a dump that \<^verbatim>\<open>dump\<close> writes for such
  a store: \<open>load\<close> adds the members of the groups before it registers the pending
  users. Loaded into the empty store, the group \<^verbatim>\<open>dev\<close> is created without bob, who
  is registered afterwards; the second load finds bob and adds him to \<^verbatim>\<open>dev\<close>.
\<close>

theorem load_twice_differs:
  "group_members example_backend (load example_backend pending_member_dump empty_store) ''dev'' = []
   \<and> group_members example_backend
        (load example_backend pending_member_dump
          (load example_backend pending_member_dump empty_store)) ''dev'' = [''bob'']
   \<and> load example_backend pending_member_dump
        (load example_backend pending_member_dump empty_store)
       \<noteq> load example_backend pending_member_dump empty_store"
proof -
  let ?once = "\<lparr>st_users = [(''bob'', \<lparr>user_password = ''$hash'', user_admin = False, user_pending = True\<rparr>)],
      st_groups = [(''dev'', [])], st_user_grants = (\<lambda>package. []),
      st_group_grants = (\<lambda>package. []), st_allow_register = False\<rparr>"
  let ?twice = "\<lparr>st_users = [(''bob'', \<lparr>user_password = ''$hash'', user_admin = False, user_pending = True\<rparr>)],
      st_groups = [(''dev'', [''bob''])], st_user_grants = (\<lambda>package. []),
      st_group_grants = (\<lambda>package. []), st_allow_register = False\<rparr>"
  have 1: "load example_backend pending_member_dump empty_store = ?once"
    unfolding example_backend_def load_store
    by (simp add: pending_member_dump_def empty_store_def load_group_store load_pending_user_def
          user_exists_def store_backend_sel store_pending_users_def store_user_data_def
          store_group_members_def store_create_group_def store_edit_user_group_def
          store_register_def store_set_allow_register_def)
  have 2: "load example_backend pending_member_dump ?once = ?twice"
    unfolding example_backend_def load_store
    by (simp add: pending_member_dump_def load_group_store load_pending_user_def
          user_exists_def store_backend_sel store_pending_users_def store_user_data_def
          store_group_members_def store_create_group_def store_edit_user_group_def
          edit_member_def store_register_def store_set_allow_register_def)
  have 3: "group_members example_backend ?once ''dev'' = []"
    "group_members example_backend ?twice ''dev'' = [''bob'']"
    by (simp_all add: example_backend_def store_backend_sel store_group_members_def)
  have 4: "?twice \<noteq> ?once" by simp
  show ?thesis by (simp only: 1 2 3 4) simp
qed

end
